theory Spec2Isabelle
  imports Main "HOL-Library.AList"
begin

section \<open>Python values, strings and dictionaries\<close>

text \<open>
  The values the manager stores in a variable mapping: \<open>None\<close>, booleans, integers,
  strings, and the lists and string-keyed dictionaries of nested JSON. Floats are left
  out of the model.
\<close>

datatype pyval =
    PNone
  | PBool bool
  | PInt int
  | PStr string
  | PList "pyval list"
  | PDict "(string \<times> pyval) list"

text \<open>Python's truth value of an object, as tested by \<open>if x:\<close>.\<close>

fun truthy :: "pyval \<Rightarrow> bool" where
  "truthy PNone = False"
| "truthy (PBool b) = b"
| "truthy (PInt i) = (i \<noteq> 0)"
| "truthy (PStr s) = (s \<noteq> [])"
| "truthy (PList xs) = (xs \<noteq> [])"
| "truthy (PDict d) = (d \<noteq> [])"

text \<open>
  A \<open>dict\<close> keeps insertion order: an association list. Assigning to a key that is
  present replaces the value in place, assigning to a new key appends the entry.
\<close>

type_synonym 'v pydict = "(string \<times> 'v) list"

type_synonym dict = "pyval pydict"

definition dict_set :: "'v pydict \<Rightarrow> string \<Rightarrow> 'v \<Rightarrow> 'v pydict" where
  "dict_set d k v = AList.update k v d"

definition dict_keys :: "'v pydict \<Rightarrow> string list" where
  "dict_keys d = map fst d"

text \<open>\<open>d.update(other)\<close>: the entries of \<open>other\<close> are assigned in their order.\<close>

definition dict_update :: "'v pydict \<Rightarrow> 'v pydict \<Rightarrow> 'v pydict" where
  "dict_update d other = fold (\<lambda>(k, v) acc. dict_set acc k v) other d"

text \<open>\<open>sep.join(xs)\<close>\<close>

fun join_str :: "string \<Rightarrow> string list \<Rightarrow> string" where
  "join_str sep [] = []"
| "join_str sep [x] = x"
| "join_str sep (x # y # ys) = x @ sep @ join_str sep (y # ys)"

definition startswith :: "string \<Rightarrow> string \<Rightarrow> bool" where
  "startswith s p = (take (length p) s = p)"

definition endswith :: "string \<Rightarrow> string \<Rightarrow> bool" where
  "endswith s p = (length p \<le> length s \<and> drop (length s - length p) s = p)"

text \<open>\<open>os.path.join(a, p)\<close> on POSIX, for two components.\<close>

definition os_path_join :: "string \<Rightarrow> string \<Rightarrow> string" where
  "os_path_join a p =
     (if startswith p ''/'' then p
      else if a = [] \<or> endswith a ''/'' then a @ p
      else a @ ''/'' @ p)"

section \<open>The manager and the process runner\<close>

record manager =
  ansible_path :: string
  inventory_path :: string
  playbooks_path :: string
  available_playbooks :: "string pydict"

text \<open>
  What \<open>subprocess.run\<close> is called with: the command, the one environment variable the
  manager sets on top of the inherited environment, and the working directory.
\<close>

record invocation =
  cmd :: "string list"
  env_ANSIBLE_CONFIG :: string
  cwd :: string

text \<open>
  What \<open>subprocess.run\<close> does: the process completes with a return code and the two
  captured streams, or the call raises (the text is \<open>str(e)\<close>).
\<close>

datatype proc_outcome =
    Completed int string string
  | Raised string

text \<open>
  The two things the manager calls and does not define: the standard library's
  \<open>json.dumps\<close> and the external process behind \<open>subprocess.run\<close>.
\<close>

record world =
  json_dumps :: "dict \<Rightarrow> string"
  subprocess_run :: "invocation \<Rightarrow> proc_outcome"

text \<open>
  A result is the returned pair \<open>(success, output)\<close> together with the list of
  subprocess invocations made on the way.
\<close>

type_synonym result = "(bool \<times> string) \<times> invocation list"

definition list_playbooks :: "manager \<Rightarrow> string list" where
  "list_playbooks mgr = dict_keys (available_playbooks mgr)"

text \<open>The command of \<open>run_playbook\<close>, built by the same sequence of appends.\<close>

definition build_cmd ::
  "world \<Rightarrow> string \<Rightarrow> dict option \<Rightarrow> string option \<Rightarrow> string list option \<Rightarrow> bool
     \<Rightarrow> string list" where
  "build_cmd w playbook_path extra_vars limit_hosts tags verbose =
     (let cmd = [''ansible-playbook'', playbook_path];
          cmd = (if verbose then cmd @ [''-vvv''] else cmd);
          cmd = (case limit_hosts of
                   Some l \<Rightarrow> if l \<noteq> [] then cmd @ [''-l'', l] else cmd
                 | None \<Rightarrow> cmd);
          cmd = (case tags of
                   Some ts \<Rightarrow> if ts \<noteq> [] then cmd @ [''-t'', join_str '','' ts] else cmd
                 | None \<Rightarrow> cmd);
          cmd = (case extra_vars of
                   Some ev \<Rightarrow> if ev \<noteq> [] then cmd @ [''--extra-vars'', json_dumps w ev] else cmd
                 | None \<Rightarrow> cmd)
      in cmd)"

definition run_playbook ::
  "world \<Rightarrow> manager \<Rightarrow> string \<Rightarrow> dict option \<Rightarrow> string option \<Rightarrow> string list option
     \<Rightarrow> bool \<Rightarrow> result" where
  "run_playbook w mgr playbook_name extra_vars limit_hosts tags verbose =
     (case map_of (available_playbooks mgr) playbook_name of
        None \<Rightarrow>
          (let playbooks_list = join_str '', '' (list_playbooks mgr)
           in ((False, ''Playbook '' @ CHR 0x27 # playbook_name @ CHR 0x27 #
                  '' not found. Available playbooks: '' @ playbooks_list), []))
      | Some playbook_path \<Rightarrow>
          (let inv = \<lparr> cmd = build_cmd w playbook_path extra_vars limit_hosts tags verbose,
                       env_ANSIBLE_CONFIG = os_path_join (ansible_path mgr) ''ansible.cfg'',
                       cwd = ansible_path mgr \<rparr>
           in case subprocess_run w inv of
                Completed returncode out err \<Rightarrow>
                  if returncode = 0 then ((True, out), [inv])
                  else ((False, ''Error: '' @ err), [inv])
              | Raised e \<Rightarrow> ((False, ''Exception: '' @ e), [inv])))"

section \<open>The playbook registry\<close>


text \<open>\<open>pat in s\<close> for strings.\<close>

fun contains_str :: "string \<Rightarrow> string \<Rightarrow> bool" where
  "contains_str [] pat = (pat = [])"
| "contains_str (c # cs) pat = (startswith (c # cs) pat \<or> contains_str cs pat)"










section \<open>The operation mappers\<close>

text \<open>The table both lifecycle mappers declare, in the order it is written.\<close>

definition op_map :: "string pydict" where
  "op_map =
     [(''create'', ''present''),
      (''start'', ''started''),
      (''stop'', ''stopped''),
      (''restart'', ''restarted''),
      (''delete'', ''absent'')]"

definition valid_operations :: "string list" where
  "valid_operations = [''list'', ''create'', ''restore'', ''delete'', ''schedule'']"

text \<open>The message of the three mappers that check their operation keyword.\<close>

definition invalid_operation :: "string \<Rightarrow> string list \<Rightarrow> string" where
  "invalid_operation operation allowed =
     ''Invalid operation '' @ CHR 0x27 # operation @ CHR 0x27 #
     ''. Must be one of: '' @ join_str '', '' allowed"

text \<open>
  Each mapper is modelled in two steps: the variable mapping it builds (or the message
  of its early return), and the delegation to \<open>run_playbook\<close>.
\<close>

definition vm_extra_vars ::
  "string \<Rightarrow> pyval \<Rightarrow> pyval \<Rightarrow> pyval \<Rightarrow> dict \<Rightarrow> string + dict" where
  "vm_extra_vars operation vm_id vm_name node kwargs =
     (case map_of op_map operation of
        None \<Rightarrow> Inl (invalid_operation operation (dict_keys op_map))
      | Some state \<Rightarrow>
          (let extra_vars =
                 [(''vm_state'', PStr state), (''vm_id'', vm_id), (''vm_name'', vm_name)];
               extra_vars =
                 (if truthy node then dict_set extra_vars ''vm_node'' node else extra_vars)
           in Inr (dict_update extra_vars kwargs)))"

definition run_vm_management ::
  "world \<Rightarrow> manager \<Rightarrow> string \<Rightarrow> pyval \<Rightarrow> pyval \<Rightarrow> pyval \<Rightarrow> dict \<Rightarrow> result" where
  "run_vm_management w mgr operation vm_id vm_name node kwargs =
     (case vm_extra_vars operation vm_id vm_name node kwargs of
        Inl msg \<Rightarrow> ((False, msg), [])
      | Inr extra_vars \<Rightarrow>
          run_playbook w mgr ''proxmox_vm_manager'' (Some extra_vars) None None False)"

definition ct_extra_vars ::
  "string \<Rightarrow> pyval \<Rightarrow> pyval \<Rightarrow> pyval \<Rightarrow> dict \<Rightarrow> string + dict" where
  "ct_extra_vars operation ct_id ct_hostname node kwargs =
     (case map_of op_map operation of
        None \<Rightarrow> Inl (invalid_operation operation (dict_keys op_map))
      | Some state \<Rightarrow>
          (let extra_vars =
                 [(''ct_state'', PStr state), (''ct_id'', ct_id), (''ct_hostname'', ct_hostname)];
               extra_vars =
                 (if truthy node then dict_set extra_vars ''ct_node'' node else extra_vars)
           in Inr (dict_update extra_vars kwargs)))"

definition run_container_management ::
  "world \<Rightarrow> manager \<Rightarrow> string \<Rightarrow> pyval \<Rightarrow> pyval \<Rightarrow> pyval \<Rightarrow> dict \<Rightarrow> result" where
  "run_container_management w mgr operation ct_id ct_hostname node kwargs =
     (case ct_extra_vars operation ct_id ct_hostname node kwargs of
        Inl msg \<Rightarrow> ((False, msg), [])
      | Inr extra_vars \<Rightarrow>
          run_playbook w mgr ''proxmox_container_manager'' (Some extra_vars) None None False)"

definition cluster_extra_vars ::
  "string \<Rightarrow> pyval \<Rightarrow> pyval \<Rightarrow> pyval \<Rightarrow> dict \<Rightarrow> dict" where
  "cluster_extra_vars operation target_node source_node cluster_name kwargs =
     (let extra_vars = [(''operation'', PStr operation)];
          extra_vars =
            (if truthy target_node then dict_set extra_vars ''target_node'' target_node
             else extra_vars);
          extra_vars =
            (if truthy source_node then dict_set extra_vars ''source_node'' source_node
             else extra_vars);
          extra_vars =
            (if truthy cluster_name then dict_set extra_vars ''cluster_name'' cluster_name
             else extra_vars)
      in dict_update extra_vars kwargs)"

definition run_cluster_management ::
  "world \<Rightarrow> manager \<Rightarrow> string \<Rightarrow> pyval \<Rightarrow> pyval \<Rightarrow> pyval \<Rightarrow> dict \<Rightarrow> result" where
  "run_cluster_management w mgr operation target_node source_node cluster_name kwargs =
     run_playbook w mgr ''proxmox_cluster_manager''
       (Some (cluster_extra_vars operation target_node source_node cluster_name kwargs))
       None None False"

definition backup_extra_vars ::
  "string \<Rightarrow> pyval \<Rightarrow> pyval \<Rightarrow> pyval \<Rightarrow> pyval \<Rightarrow> dict \<Rightarrow> string + dict" where
  "backup_extra_vars operation vm_id backup_id storage node kwargs =
     (if operation \<notin> set valid_operations
      then Inl (invalid_operation operation valid_operations)
      else
        (let extra_vars = [(''operation'', PStr operation)];
             extra_vars =
               (if truthy vm_id then dict_set extra_vars ''vm_id'' vm_id else extra_vars);
             extra_vars =
               (if truthy backup_id then dict_set extra_vars ''backup_id'' backup_id
                else extra_vars);
             extra_vars =
               (if truthy storage then dict_set extra_vars ''storage'' storage else extra_vars);
             extra_vars =
               (if truthy node then dict_set extra_vars ''node'' node else extra_vars)
         in Inr (dict_update extra_vars kwargs)))"

definition run_backup_management ::
  "world \<Rightarrow> manager \<Rightarrow> string \<Rightarrow> pyval \<Rightarrow> pyval \<Rightarrow> pyval \<Rightarrow> pyval \<Rightarrow> dict \<Rightarrow> result" where
  "run_backup_management w mgr operation vm_id backup_id storage node kwargs =
     (case backup_extra_vars operation vm_id backup_id storage node kwargs of
        Inl msg \<Rightarrow> ((False, msg), [])
      | Inr extra_vars \<Rightarrow>
          run_playbook w mgr ''proxmox_backup_manager'' (Some extra_vars) None None False)"

section \<open>Calling a mapper with keyword arguments\<close>

text \<open>
  The mappers are declared as \<open>def f(self, operation, a=None, b=None, c=None, **kwargs)\<close>.
  Python binds a keyword argument whose name is a parameter to that parameter; only the
  other keywords reach \<open>kwargs\<close>, and a parameter not passed is \<open>None\<close>. A keyword given
  twice, or one that names \<open>self\<close> or the operation passed beside it, is a
  \<open>TypeError\<close> before the body runs.
\<close>

datatype py_error = TypeError

definition arg_of :: "dict \<Rightarrow> string \<Rightarrow> pyval" where
  "arg_of kw name = (case map_of kw name of None \<Rightarrow> PNone | Some v \<Rightarrow> v)"

definition kwargs_of :: "string list \<Rightarrow> dict \<Rightarrow> dict" where
  "kwargs_of params kw = filter (\<lambda>(k, v). k \<notin> set params) kw"

definition call_with_keywords ::
  "string list \<Rightarrow> dict \<Rightarrow> ((string \<Rightarrow> pyval) \<Rightarrow> dict \<Rightarrow> 'a) \<Rightarrow> py_error + 'a" where
  "call_with_keywords params kw body =
     (if \<not> distinct (dict_keys kw) \<or> ''self'' \<in> set (dict_keys kw)
         \<or> ''operation'' \<in> set (dict_keys kw)
      then Inl TypeError
      else Inr (body (arg_of kw) (kwargs_of (''self'' # ''operation'' # params) kw)))"

text \<open>
  The variable mapping built by \<open>run_vm_management(operation, **kw)\<close> and its three
  siblings.
\<close>

definition vm_call_vars :: "string \<Rightarrow> dict \<Rightarrow> py_error + (string + dict)" where
  "vm_call_vars operation kw =
     call_with_keywords [''vm_id'', ''vm_name'', ''node''] kw
       (\<lambda>arg kwargs. vm_extra_vars operation (arg ''vm_id'') (arg ''vm_name'') (arg ''node'') kwargs)"

definition ct_call_vars :: "string \<Rightarrow> dict \<Rightarrow> py_error + (string + dict)" where
  "ct_call_vars operation kw =
     call_with_keywords [''ct_id'', ''ct_hostname'', ''node''] kw
       (\<lambda>arg kwargs.
          ct_extra_vars operation (arg ''ct_id'') (arg ''ct_hostname'') (arg ''node'') kwargs)"

definition cluster_call_vars :: "string \<Rightarrow> dict \<Rightarrow> py_error + dict" where
  "cluster_call_vars operation kw =
     call_with_keywords [''target_node'', ''source_node'', ''cluster_name''] kw
       (\<lambda>arg kwargs.
          cluster_extra_vars operation (arg ''target_node'') (arg ''source_node'')
            (arg ''cluster_name'') kwargs)"

definition backup_call_vars :: "string \<Rightarrow> dict \<Rightarrow> py_error + (string + dict)" where
  "backup_call_vars operation kw =
     call_with_keywords [''vm_id'', ''backup_id'', ''storage'', ''node''] kw
       (\<lambda>arg kwargs.
          backup_extra_vars operation (arg ''vm_id'') (arg ''backup_id'') (arg ''storage'')
            (arg ''node'') kwargs)"

section \<open>The backup sub-command of the command line\<close>

text \<open>
  The namespace \<open>parse_args\<close> returns for \<open>backup\<close>: every flag is a string, absent
  flags are \<open>None\<close>; \<open>--operation\<close> is required.
\<close>

record backup_namespace =
  ns_operation :: string
  ns_vm_id :: "string option"
  ns_backup_id :: "string option"
  ns_storage :: "string option"
  ns_node :: "string option"
  ns_mode :: "string option"
  ns_compress :: "string option"
  ns_schedule_hour :: "string option"
  ns_schedule_minute :: "string option"
  ns_schedule_day :: "string option"
  ns_schedule_month :: "string option"
  ns_schedule_weekday :: "string option"

definition operation_choices :: "string list" where
  "operation_choices = [''list'', ''create'', ''restore'', ''delete'', ''schedule'']"

definition mode_choices :: "string list" where
  "mode_choices = [''snapshot'', ''suspend'', ''stop'']"

definition compress_choices :: "string list" where
  "compress_choices = [''0'', ''gzip'', ''lzo'', ''zstd'']"

text \<open>
  A flag declared with \<open>choices=\<close> is refused by the parser (usage error, exit status 2)
  when its value is not one of the choices.
\<close>

datatype cli_error = UsageError

definition choice_ok :: "string list \<Rightarrow> string option \<Rightarrow> bool" where
  "choice_ok choices v = (case v of None \<Rightarrow> True | Some s \<Rightarrow> s \<in> set choices)"

definition parse_args_backup :: "backup_namespace \<Rightarrow> cli_error + backup_namespace" where
  "parse_args_backup given =
     (if ns_operation given \<in> set operation_choices
         \<and> choice_ok mode_choices (ns_mode given)
         \<and> choice_ok compress_choices (ns_compress given)
      then Inr given
      else Inl UsageError)"

definition opt_str :: "string option \<Rightarrow> pyval" where
  "opt_str v = (case v of None \<Rightarrow> PNone | Some s \<Rightarrow> PStr s)"

text \<open>The keyword arguments \<open>handle_backup_command\<close> collects before the call.\<close>

definition backup_kwargs :: "backup_namespace \<Rightarrow> dict" where
  "backup_kwargs args =
     (let kwargs =
            fold (\<lambda>(param, v) kwargs.
                    case v of None \<Rightarrow> kwargs | Some s \<Rightarrow> dict_set kwargs param (PStr s))
              [(''schedule_hour'', ns_schedule_hour args),
               (''schedule_minute'', ns_schedule_minute args),
               (''schedule_day'', ns_schedule_day args),
               (''schedule_month'', ns_schedule_month args),
               (''schedule_weekday'', ns_schedule_weekday args)]
              [];
          kwargs =
            (if truthy (opt_str (ns_mode args))
             then dict_set kwargs ''mode'' (opt_str (ns_mode args)) else kwargs);
          kwargs =
            (if truthy (opt_str (ns_compress args))
             then dict_set kwargs ''compress'' (opt_str (ns_compress args)) else kwargs)
      in kwargs)"

text \<open>
  The variable mapping of \<open>handle_backup_command\<close>: the call
  \<open>run_backup_management(operation=..., vm_id=..., backup_id=..., storage=..., node=...,
  **kwargs)\<close>.
\<close>

definition handle_backup_command_vars :: "backup_namespace \<Rightarrow> py_error + (string + dict)" where
  "handle_backup_command_vars args =
     backup_call_vars (ns_operation args)
       ([(''vm_id'', opt_str (ns_vm_id args)),
         (''backup_id'', opt_str (ns_backup_id args)),
         (''storage'', opt_str (ns_storage args)),
         (''node'', opt_str (ns_node args))] @ backup_kwargs args)"

section \<open>Substrings and joined lists\<close>

lemma startswith_append: "startswith s p \<Longrightarrow> startswith (s @ t) p"
  unfolding startswith_def
  by (metis append_eq_conv_conj append_take_drop_id append.assoc)

lemma contains_str_append_left: "contains_str a p \<Longrightarrow> contains_str (a @ b) p"
proof (induction a)
  case Nil
  then show ?case by (cases b) (simp_all add: startswith_def)
next
  case (Cons c cs)
  then show ?case using startswith_append [of "c # cs" p b] by auto
qed

lemma contains_str_append_right: "contains_str b p \<Longrightarrow> contains_str (a @ b) p"
  by (induction a) simp_all

lemma contains_str_self: "contains_str s s"
  by (cases s) (simp_all add: startswith_def)

lemma contains_str_join: "n \<in> set xs \<Longrightarrow> contains_str (join_str sep xs) n"
proof (induction sep xs rule: join_str.induct)
  case (1 sep)
  then show ?case by simp
next
  case (2 sep x)
  then show ?case by (simp add: contains_str_self)
next
  case (3 sep x y ys)
  show ?case
  proof (cases "n = x")
    case True
    then show ?thesis
      by (simp add: contains_str_append_left contains_str_self del: contains_str.simps)
  next
    case False
    with 3 have "contains_str (join_str sep (y # ys)) n" by simp
    then show ?thesis
      using contains_str_append_right [of "join_str sep (y # ys)" n "x @ sep"] by simp
  qed
qed

section \<open>The process runner\<close>

lemma not_in_registry:
  "n \<notin> set (list_playbooks mgr) \<longleftrightarrow> map_of (available_playbooks mgr) n = None"
  by (simp add: list_playbooks_def dict_keys_def map_of_eq_None_iff)



text \<open>
  Claim C2. For a playbook name that is not in the registry, \<open>run_playbook\<close> returns
  \<open>False\<close> with the message \<open>Playbook '<name>' not found. Available playbooks: <names>\<close>,
  where the names are all registry names joined by \<open>", "\<close>: the message contains the
  missing name and every known name. No subprocess is invoked.
\<close>

theorem run_playbook_unknown_name:
  assumes "playbook_name \<notin> set (list_playbooks mgr)"
  shows "run_playbook w mgr playbook_name extra_vars limit_hosts tags verbose =
           ((False, ''Playbook '' @ CHR 0x27 # playbook_name @ CHR 0x27 #
               '' not found. Available playbooks: '' @ join_str '', '' (list_playbooks mgr)), [])
         \<and> contains_str
             (snd (fst (run_playbook w mgr playbook_name extra_vars limit_hosts tags verbose)))
             playbook_name
         \<and> (\<forall>n \<in> set (list_playbooks mgr).
              contains_str
                (snd (fst (run_playbook w mgr playbook_name extra_vars limit_hosts tags verbose)))
                n)"
proof -
  let ?names = "join_str '', '' (list_playbooks mgr)"
  let ?out = "''Playbook '' @ CHR 0x27 # playbook_name @ CHR 0x27 #
               '' not found. Available playbooks: '' @ ?names"
  from assms have none: "map_of (available_playbooks mgr) playbook_name = None"
    by (simp add: not_in_registry)
  have eq: "run_playbook w mgr playbook_name extra_vars limit_hosts tags verbose
              = ((False, ?out), [])"
    by (simp add: run_playbook_def none)
  have "contains_str
          (playbook_name @ CHR 0x27 # '' not found. Available playbooks: '' @ ?names)
          playbook_name"
    by (rule contains_str_append_left) (rule contains_str_self)
  then have a: "contains_str ?out playbook_name"
    using contains_str_append_right [of _ playbook_name "''Playbook '' @ [CHR 0x27]"] by simp
  have b: "contains_str ?out n" if "n \<in> set (list_playbooks mgr)" for n
  proof -
    have "contains_str ?names n" using that by (rule contains_str_join)
    then show ?thesis
      using contains_str_append_right [of ?names n
          "''Playbook '' @ CHR 0x27 # playbook_name @ CHR 0x27 #
             '' not found. Available playbooks: ''"]
      by simp
  qed
  show ?thesis using eq a b by simp
qed

theorem run_playbook_unknown_name_witness:
  "run_playbook
       \<lparr> json_dumps = (\<lambda>d. []), subprocess_run = (\<lambda>i. Completed 0 ''ok'' []) \<rparr>
       \<lparr> ansible_path = ''/srv/ansible'', inventory_path = ''/srv/ansible/inventory'',
         playbooks_path = ''/srv/ansible/playbooks'',
         available_playbooks = [(''setup'', ''/srv/ansible/playbooks/setup.yml''),
                                (''teardown'', ''/srv/ansible/playbooks/teardown.yaml'')] \<rparr>
       ''missing_playbook'' None None None False
     = ((False, ''Playbook '' @ CHR 0x27 # ''missing_playbook'' @ CHR 0x27 #
           '' not found. Available playbooks: setup, teardown''), [])"
proof -
  let ?mgr = "\<lparr> ansible_path = ''/srv/ansible'', inventory_path = ''/srv/ansible/inventory'',
         playbooks_path = ''/srv/ansible/playbooks'',
         available_playbooks = [(''setup'', ''/srv/ansible/playbooks/setup.yml''),
                                (''teardown'', ''/srv/ansible/playbooks/teardown.yaml'')] \<rparr>"
  have names: "list_playbooks ?mgr = [''setup'', ''teardown'']"
    by (simp add: list_playbooks_def dict_keys_def)
  then have unknown: "''missing_playbook'' \<notin> set (list_playbooks ?mgr)"
    by simp
  show ?thesis
    using run_playbook_unknown_name [OF unknown,
        of "\<lparr> json_dumps = (\<lambda>d. []), subprocess_run = (\<lambda>i. Completed 0 ''ok'' []) \<rparr>"
           None None None False]
    by (simp only: names) simp
qed

text \<open>
  Claim C3. For a known playbook exactly one subprocess is invoked and the result
  follows its outcome: return code zero gives \<open>(True, stdout)\<close>, any other return code
  gives \<open>(False, "Error: " + stderr)\<close>, and a call that raises gives
  \<open>(False, "Exception: " + str(e))\<close>; the success flag is true exactly when the process
  completed with return code zero. The witness is the scenario of return code 2 with
  \<open>host unreachable\<close> on the error stream.
\<close>

theorem run_playbook_outcome:
  assumes "map_of (available_playbooks mgr) playbook_name = Some playbook_path"
  shows "\<exists>inv. snd (run_playbook w mgr playbook_name extra_vars limit_hosts tags verbose) = [inv]
           \<and> (\<forall>out err. subprocess_run w inv = Completed 0 out err \<longrightarrow>
                 fst (run_playbook w mgr playbook_name extra_vars limit_hosts tags verbose) = (True, out))
           \<and> (\<forall>rc out err. rc \<noteq> 0 \<longrightarrow> subprocess_run w inv = Completed rc out err \<longrightarrow>
                 fst (run_playbook w mgr playbook_name extra_vars limit_hosts tags verbose)
                   = (False, ''Error: '' @ err))
           \<and> (\<forall>e. subprocess_run w inv = Raised e \<longrightarrow>
                 fst (run_playbook w mgr playbook_name extra_vars limit_hosts tags verbose)
                   = (False, ''Exception: '' @ e))
           \<and> (fst (fst (run_playbook w mgr playbook_name extra_vars limit_hosts tags verbose))
                 \<longleftrightarrow> (\<exists>out err. subprocess_run w inv = Completed 0 out err))"
proof -
  let ?inv = "\<lparr> cmd = build_cmd w playbook_path extra_vars limit_hosts tags verbose,
                 env_ANSIBLE_CONFIG = os_path_join (ansible_path mgr) ''ansible.cfg'',
                 cwd = ansible_path mgr \<rparr>"
  show ?thesis
  proof (cases "subprocess_run w ?inv")
    case (Completed rc out err)
    then show ?thesis
      using assms by (intro exI [of _ ?inv]) (simp add: run_playbook_def Let_def)
  next
    case (Raised e)
    then show ?thesis
      using assms by (intro exI [of _ ?inv]) (simp add: run_playbook_def Let_def)
  qed
qed

theorem run_playbook_outcome_witness:
  "map_of (available_playbooks
       \<lparr> ansible_path = ''/srv/ansible'', inventory_path = ''/srv/ansible/inventory'',
         playbooks_path = ''/srv/ansible/playbooks'',
         available_playbooks = [(''site'', ''/srv/ansible/playbooks/site.yml'')] \<rparr>) ''site''
     = Some ''/srv/ansible/playbooks/site.yml''
   \<and> run_playbook
       \<lparr> json_dumps = (\<lambda>d. []), subprocess_run = (\<lambda>i. Completed 2 [] ''host unreachable'') \<rparr>
       \<lparr> ansible_path = ''/srv/ansible'', inventory_path = ''/srv/ansible/inventory'',
         playbooks_path = ''/srv/ansible/playbooks'',
         available_playbooks = [(''site'', ''/srv/ansible/playbooks/site.yml'')] \<rparr>
       ''site'' None None None False
     = ((False, ''Error: host unreachable''),
        [\<lparr> cmd = [''ansible-playbook'', ''/srv/ansible/playbooks/site.yml''],
           env_ANSIBLE_CONFIG = ''/srv/ansible/ansible.cfg'', cwd = ''/srv/ansible'' \<rparr>])"
proof -
  let ?mgr = "\<lparr> ansible_path = ''/srv/ansible'', inventory_path = ''/srv/ansible/inventory'',
         playbooks_path = ''/srv/ansible/playbooks'',
         available_playbooks = [(''site'', ''/srv/ansible/playbooks/site.yml'')] \<rparr>"
  let ?w = "\<lparr> json_dumps = (\<lambda>d::dict. []), subprocess_run = (\<lambda>i. Completed 2 [] ''host unreachable'') \<rparr>"
  let ?r = "run_playbook ?w ?mgr ''site'' None None None False"
  have known: "map_of (available_playbooks ?mgr) ''site'' = Some ''/srv/ansible/playbooks/site.yml''"
    by simp
  from run_playbook_outcome [OF known, of ?w None None None False]
  obtain inv where s: "snd ?r = [inv]"
    and f: "\<forall>rc out err. rc \<noteq> 0 \<longrightarrow> subprocess_run ?w inv = Completed rc out err \<longrightarrow>
                 fst ?r = (False, ''Error: '' @ err)"
    by blast
  have "subprocess_run ?w inv = Completed 2 [] ''host unreachable''" by simp
  with f have fr: "fst ?r = (False, ''Error: host unreachable'')" by fastforce
  have sr: "snd ?r = [\<lparr> cmd = [''ansible-playbook'', ''/srv/ansible/playbooks/site.yml''],
           env_ANSIBLE_CONFIG = ''/srv/ansible/ansible.cfg'', cwd = ''/srv/ansible'' \<rparr>]"
    by (simp add: run_playbook_def build_cmd_def os_path_join_def startswith_def endswith_def)
  show ?thesis using known fr sr by (simp add: prod_eq_iff)
qed



section \<open>The registry scan\<close>











lemma dict_set_keys: "set (dict_keys (dict_set d k v)) = insert k (set (dict_keys d))"
  using AList.dom_update [of k v d] by (simp add: dict_set_def dict_keys_def)

lemma dict_set_distinct: "distinct (dict_keys d) \<Longrightarrow> distinct (dict_keys (dict_set d k v))"
  by (simp add: dict_set_def dict_keys_def AList.distinct_update)


















section \<open>Dictionaries and keyword binding\<close>

lemma dict_set_map_of: "map_of (dict_set d k v) = (map_of d)(k \<mapsto> v)"
  by (simp add: dict_set_def AList.update_conv')

lemma dict_set_fresh: "k \<notin> set (dict_keys d) \<Longrightarrow> dict_set d k v = d @ [(k, v)]"
  unfolding dict_set_def dict_keys_def
  by (induction d) auto

lemma dict_update_fresh:
  "distinct (dict_keys other) \<Longrightarrow> set (dict_keys other) \<inter> set (dict_keys d) = {}
     \<Longrightarrow> dict_update d other = d @ other"
proof (induction other arbitrary: d)
  case Nil
  then show ?case by (simp add: dict_update_def)
next
  case (Cons kv other)
  obtain k v where kv: "kv = (k, v)" by (cases kv)
  from Cons.prems kv have fresh: "k \<notin> set (dict_keys d)"
    by (auto simp: dict_keys_def)
  from Cons.prems kv have d: "distinct (dict_keys other)"
    and disj: "set (dict_keys other) \<inter> set (dict_keys (d @ [(k, v)])) = {}"
    by (auto simp: dict_keys_def)
  have "dict_update d (kv # other) = dict_update (dict_set d k v) other"
    by (simp add: dict_update_def kv)
  also have "\<dots> = dict_update (d @ [(k, v)]) other"
    by (simp only: dict_set_fresh [OF fresh])
  also have "\<dots> = (d @ [(k, v)]) @ other"
    using d disj by (rule Cons.IH)
  finally show ?case by (simp add: kv)
qed

lemma dict_update_map_of_other:
  "k \<notin> set (dict_keys other) \<Longrightarrow> map_of (dict_update d other) k = map_of d k"
proof (induction other arbitrary: d)
  case Nil
  then show ?case by (simp add: dict_update_def)
next
  case (Cons kv other)
  obtain k' v where kv: "kv = (k', v)" by (cases kv)
  from Cons.prems kv have ne: "k \<noteq> k'" and rest: "k \<notin> set (dict_keys other)"
    by (auto simp: dict_keys_def)
  have "map_of (dict_update d (kv # other)) k = map_of (dict_update (dict_set d k' v) other) k"
    by (simp add: dict_update_def kv)
  also have "\<dots> = map_of (dict_set d k' v) k"
    using rest by (rule Cons.IH)
  also have "\<dots> = map_of d k"
    using ne by (simp add: dict_set_map_of)
  finally show ?case .
qed

lemma dict_update_keys:
  "set (dict_keys (dict_update d other)) = set (dict_keys d) \<union> set (dict_keys other)"
proof (induction other arbitrary: d)
  case Nil
  then show ?case by (simp add: dict_update_def dict_keys_def)
next
  case (Cons kv other)
  obtain k v where kv: "kv = (k, v)" by (cases kv)
  have "dict_update d (kv # other) = dict_update (dict_set d k v) other"
    by (simp add: dict_update_def kv)
  then have "set (dict_keys (dict_update d (kv # other)))
      = set (dict_keys (dict_set d k v)) \<union> set (dict_keys other)"
    by (simp only: Cons.IH)
  also have "\<dots> = set (dict_keys d) \<union> set (dict_keys (kv # other))"
    using AList.dom_update [of k v d] by (auto simp: dict_set_def dict_keys_def kv)
  finally show ?case .
qed

lemma kwargs_of_keys:
  "set (dict_keys (kwargs_of params kw)) = set (dict_keys kw) - set params"
  by (auto simp: kwargs_of_def dict_keys_def)

lemma kwargs_of_distinct:
  "distinct (dict_keys kw) \<Longrightarrow> distinct (dict_keys (kwargs_of params kw))"
  by (simp add: kwargs_of_def dict_keys_def distinct_map_filter)

lemma kwargs_of_self_operation:
  assumes "''self'' \<notin> set (dict_keys kw)" and "''operation'' \<notin> set (dict_keys kw)"
  shows "kwargs_of (''self'' # ''operation'' # params) kw = kwargs_of params kw"
proof -
  have "(k \<notin> set (''self'' # ''operation'' # params)) = (k \<notin> set params)"
    if "(k, v) \<in> set kw" for k v
  proof -
    from that have "k \<in> set (dict_keys kw)" by (force simp: dict_keys_def)
    with assms have "k \<noteq> ''self''" and "k \<noteq> ''operation''" by auto
    then show ?thesis by simp
  qed
  then show ?thesis
    unfolding kwargs_of_def by (intro filter_cong) auto
qed

lemma call_with_keywords_ok:
  "call_with_keywords params kw body = Inr r \<longleftrightarrow>
     distinct (dict_keys kw) \<and> ''self'' \<notin> set (dict_keys kw) \<and> ''operation'' \<notin> set (dict_keys kw)
     \<and> r = body (arg_of kw) (kwargs_of (''self'' # ''operation'' # params) kw)"
  by (auto simp: call_with_keywords_def)

section \<open>The lifecycle mappers\<close>

lemma op_map_pairs:
  "(operation, state) \<in> {(''create'', ''present''), (''start'', ''started''),
        (''stop'', ''stopped''), (''restart'', ''restarted''), (''delete'', ''absent'')}
     \<longleftrightarrow> map_of op_map operation = Some state"
  by (auto simp: op_map_def)

lemma vm_extra_vars_exact:
  assumes "map_of op_map operation = Some state"
    and "distinct (dict_keys kwargs)"
    and "set (dict_keys kwargs) \<inter> {''vm_state'', ''vm_id'', ''vm_name'', ''vm_node''} = {}"
  shows "vm_extra_vars operation vm_id vm_name node kwargs =
           Inr ([(''vm_state'', PStr state), (''vm_id'', vm_id), (''vm_name'', vm_name)]
                @ (if truthy node then [(''vm_node'', node)] else []) @ kwargs)"
proof (cases "truthy node")
  case True
  let ?base = "[(''vm_state'', PStr state), (''vm_id'', vm_id), (''vm_name'', vm_name),
                (''vm_node'', node)]"
  have b: "dict_set [(''vm_state'', PStr state), (''vm_id'', vm_id), (''vm_name'', vm_name)]
             ''vm_node'' node = ?base"
    by (simp add: dict_set_def)
  have "set (dict_keys kwargs) \<inter> set (dict_keys ?base) = {}"
    using assms(3) by (simp add: dict_keys_def)
  with assms(2) have "dict_update ?base kwargs = ?base @ kwargs"
    by (rule dict_update_fresh)
  then show ?thesis
    using True assms(1) by (simp add: vm_extra_vars_def b)
next
  case False
  let ?base = "[(''vm_state'', PStr state), (''vm_id'', vm_id), (''vm_name'', vm_name)]"
  have "set (dict_keys kwargs) \<inter> set (dict_keys ?base) = {}"
    using assms(3) by (simp add: dict_keys_def)
  with assms(2) have "dict_update ?base kwargs = ?base @ kwargs"
    by (rule dict_update_fresh)
  then show ?thesis
    using False assms(1) by (simp add: vm_extra_vars_def)
qed

lemma ct_extra_vars_exact:
  assumes "map_of op_map operation = Some state"
    and "distinct (dict_keys kwargs)"
    and "set (dict_keys kwargs) \<inter> {''ct_state'', ''ct_id'', ''ct_hostname'', ''ct_node''} = {}"
  shows "ct_extra_vars operation ct_id ct_hostname node kwargs =
           Inr ([(''ct_state'', PStr state), (''ct_id'', ct_id), (''ct_hostname'', ct_hostname)]
                @ (if truthy node then [(''ct_node'', node)] else []) @ kwargs)"
proof (cases "truthy node")
  case True
  let ?base = "[(''ct_state'', PStr state), (''ct_id'', ct_id), (''ct_hostname'', ct_hostname),
                (''ct_node'', node)]"
  have b: "dict_set [(''ct_state'', PStr state), (''ct_id'', ct_id), (''ct_hostname'', ct_hostname)]
             ''ct_node'' node = ?base"
    by (simp add: dict_set_def)
  have "set (dict_keys kwargs) \<inter> set (dict_keys ?base) = {}"
    using assms(3) by (simp add: dict_keys_def)
  with assms(2) have "dict_update ?base kwargs = ?base @ kwargs"
    by (rule dict_update_fresh)
  then show ?thesis
    using True assms(1) by (simp add: ct_extra_vars_def b)
next
  case False
  let ?base = "[(''ct_state'', PStr state), (''ct_id'', ct_id), (''ct_hostname'', ct_hostname)]"
  have "set (dict_keys kwargs) \<inter> set (dict_keys ?base) = {}"
    using assms(3) by (simp add: dict_keys_def)
  with assms(2) have "dict_update ?base kwargs = ?base @ kwargs"
    by (rule dict_update_fresh)
  then show ?thesis
    using False assms(1) by (simp add: ct_extra_vars_def)
qed

text \<open>
  Claim C5, as amended. For a call of \<open>run_vm_management\<close> or
  \<open>run_container_management\<close> with a lifecycle operation keyword, when no additional
  attribute is named \<open>vm_state\<close> or \<open>vm_node\<close> (\<open>ct_state\<close> or \<open>ct_node\<close> for a
  container), the variable mapping is exactly: the state field with the mapped keyword,
  the identifier and the name or hostname (\<open>None\<close> when not passed), the node key exactly
  when the node is truthy, and then the additional attributes, each under its own name
  with its own value.
\<close>

theorem lifecycle_variable_mapping:
  assumes "(operation, state) \<in> {(''create'', ''present''), (''start'', ''started''),
        (''stop'', ''stopped''), (''restart'', ''restarted''), (''delete'', ''absent'')}"
    and "distinct (dict_keys kw)"
    and "''self'' \<notin> set (dict_keys kw)" and "''operation'' \<notin> set (dict_keys kw)"
  shows "(''vm_state'' \<notin> set (dict_keys kw) \<and> ''vm_node'' \<notin> set (dict_keys kw) \<longrightarrow>
            vm_call_vars operation kw =
              Inr (Inr ([(''vm_state'', PStr state), (''vm_id'', arg_of kw ''vm_id''),
                         (''vm_name'', arg_of kw ''vm_name'')]
                        @ (if truthy (arg_of kw ''node'') then [(''vm_node'', arg_of kw ''node'')]
                           else [])
                        @ kwargs_of [''vm_id'', ''vm_name'', ''node''] kw)))
       \<and> (''ct_state'' \<notin> set (dict_keys kw) \<and> ''ct_node'' \<notin> set (dict_keys kw) \<longrightarrow>
            ct_call_vars operation kw =
              Inr (Inr ([(''ct_state'', PStr state), (''ct_id'', arg_of kw ''ct_id''),
                         (''ct_hostname'', arg_of kw ''ct_hostname'')]
                        @ (if truthy (arg_of kw ''node'') then [(''ct_node'', arg_of kw ''node'')]
                           else [])
                        @ kwargs_of [''ct_id'', ''ct_hostname'', ''node''] kw)))"
proof -
  from assms(1) have op: "map_of op_map operation = Some state"
    by (simp only: op_map_pairs)
  have vm: "vm_call_vars operation kw =
              Inr (Inr ([(''vm_state'', PStr state), (''vm_id'', arg_of kw ''vm_id''),
                         (''vm_name'', arg_of kw ''vm_name'')]
                        @ (if truthy (arg_of kw ''node'') then [(''vm_node'', arg_of kw ''node'')]
                           else [])
                        @ kwargs_of [''vm_id'', ''vm_name'', ''node''] kw))"
    if "''vm_state'' \<notin> set (dict_keys kw)" and "''vm_node'' \<notin> set (dict_keys kw)"
  proof -
    let ?kwargs = "kwargs_of [''vm_id'', ''vm_name'', ''node''] kw"
    have d: "distinct (dict_keys ?kwargs)"
      using assms(2) by (rule kwargs_of_distinct)
    have i: "set (dict_keys ?kwargs) \<inter> {''vm_state'', ''vm_id'', ''vm_name'', ''vm_node''} = {}"
      using that by (auto simp: kwargs_of_keys)
    have "vm_call_vars operation kw =
            Inr (vm_extra_vars operation (arg_of kw ''vm_id'') (arg_of kw ''vm_name'')
                   (arg_of kw ''node'') ?kwargs)"
      using assms(2-4)
      by (simp add: vm_call_vars_def call_with_keywords_def kwargs_of_self_operation)
    then show ?thesis
      by (simp only: vm_extra_vars_exact [OF op d i])
  qed
  have ct: "ct_call_vars operation kw =
              Inr (Inr ([(''ct_state'', PStr state), (''ct_id'', arg_of kw ''ct_id''),
                         (''ct_hostname'', arg_of kw ''ct_hostname'')]
                        @ (if truthy (arg_of kw ''node'') then [(''ct_node'', arg_of kw ''node'')]
                           else [])
                        @ kwargs_of [''ct_id'', ''ct_hostname'', ''node''] kw))"
    if "''ct_state'' \<notin> set (dict_keys kw)" and "''ct_node'' \<notin> set (dict_keys kw)"
  proof -
    let ?kwargs = "kwargs_of [''ct_id'', ''ct_hostname'', ''node''] kw"
    have d: "distinct (dict_keys ?kwargs)"
      using assms(2) by (rule kwargs_of_distinct)
    have i: "set (dict_keys ?kwargs) \<inter> {''ct_state'', ''ct_id'', ''ct_hostname'', ''ct_node''} = {}"
      using that by (auto simp: kwargs_of_keys)
    have "ct_call_vars operation kw =
            Inr (ct_extra_vars operation (arg_of kw ''ct_id'') (arg_of kw ''ct_hostname'')
                   (arg_of kw ''node'') ?kwargs)"
      using assms(2-4)
      by (simp add: ct_call_vars_def call_with_keywords_def kwargs_of_self_operation)
    then show ?thesis
      by (simp only: ct_extra_vars_exact [OF op d i])
  qed
  from vm ct show ?thesis by blast
qed

text \<open>
  The scenario of a VM create with \<open>vm_id="100"\<close>, \<open>vm_name="test"\<close>, \<open>memory=2048\<close> and
  no node.
\<close>

theorem lifecycle_variable_mapping_witness:
  "vm_call_vars ''create''
       [(''vm_id'', PStr ''100''), (''vm_name'', PStr ''test''), (''memory'', PInt 2048)]
     = Inr (Inr [(''vm_state'', PStr ''present''), (''vm_id'', PStr ''100''),
                 (''vm_name'', PStr ''test''), (''memory'', PInt 2048)])"
proof -
  let ?kw = "[(''vm_id'', PStr ''100''), (''vm_name'', PStr ''test''), (''memory'', PInt 2048)]"
  have keys: "dict_keys ?kw = [''vm_id'', ''vm_name'', ''memory'']"
    by (simp add: dict_keys_def)
  have op: "(''create'', ''present'') \<in> {(''create'', ''present''), (''start'', ''started''),
        (''stop'', ''stopped''), (''restart'', ''restarted''), (''delete'', ''absent'')}"
    by simp
  have d: "distinct (dict_keys ?kw)" by (simp add: keys)
  have s: "''self'' \<notin> set (dict_keys ?kw)" by (simp add: keys)
  have o: "''operation'' \<notin> set (dict_keys ?kw)" by (simp add: keys)
  have f: "''vm_state'' \<notin> set (dict_keys ?kw) \<and> ''vm_node'' \<notin> set (dict_keys ?kw)"
    by (simp add: keys)
  have args: "arg_of ?kw ''vm_id'' = PStr ''100''" "arg_of ?kw ''vm_name'' = PStr ''test''"
      "arg_of ?kw ''node'' = PNone"
    by (simp_all add: arg_of_def)
  have rest: "kwargs_of [''vm_id'', ''vm_name'', ''node''] ?kw = [(''memory'', PInt 2048)]"
    by (simp add: kwargs_of_def)
  from lifecycle_variable_mapping [OF op d s o] f
  have "vm_call_vars ''create'' ?kw =
              Inr (Inr ([(''vm_state'', PStr ''present''), (''vm_id'', arg_of ?kw ''vm_id''),
                         (''vm_name'', arg_of ?kw ''vm_name'')]
                        @ (if truthy (arg_of ?kw ''node'') then [(''vm_node'', arg_of ?kw ''node'')]
                           else [])
                        @ kwargs_of [''vm_id'', ''vm_name'', ''node''] ?kw))"
    by blast
  then show ?thesis
    by (simp only: args rest) simp
qed

text \<open>
  An additional attribute named \<open>vm_state\<close> replaces the state derived from the
  operation keyword: the claim's state field fails for this call.
\<close>

theorem lifecycle_variable_mapping_counterexample:
  "map_of op_map ''create'' = Some ''present''
   \<and> vm_call_vars ''create''
       [(''vm_id'', PStr ''100''), (''vm_name'', PStr ''test''), (''vm_state'', PStr ''absent'')]
     = Inr (Inr [(''vm_state'', PStr ''absent''), (''vm_id'', PStr ''100''),
                 (''vm_name'', PStr ''test'')])"
  by (simp add: op_map_def vm_call_vars_def call_with_keywords_def dict_keys_def arg_of_def
      kwargs_of_def vm_extra_vars_def dict_update_def dict_set_def)

section \<open>Base keys and additional attributes\<close>

lemma in_keys_iff: "k \<in> set (dict_keys d) \<longleftrightarrow> map_of d k \<noteq> None"
  by (simp add: dict_keys_def map_of_eq_None_iff)

lemma vm_extra_vars_base:
  assumes "vm_extra_vars operation vm_id vm_name node kwargs = Inr vars"
    and "''vm_id'' \<notin> set (dict_keys kwargs)" and "''vm_name'' \<notin> set (dict_keys kwargs)"
  shows "map_of vars ''vm_id'' = Some vm_id \<and> map_of vars ''vm_name'' = Some vm_name"
proof -
  from assms(1) obtain state where st: "map_of op_map operation = Some state"
    by (cases "map_of op_map operation") (simp_all add: vm_extra_vars_def)
  let ?base = "[(''vm_state'', PStr state), (''vm_id'', vm_id), (''vm_name'', vm_name)]"
  have "\<exists>base'. vars = dict_update base' kwargs
          \<and> map_of base' ''vm_id'' = Some vm_id \<and> map_of base' ''vm_name'' = Some vm_name"
  proof (cases "truthy node")
    case True
    with assms(1) st have "vars = dict_update (dict_set ?base ''vm_node'' node) kwargs"
      by (simp add: vm_extra_vars_def)
    then show ?thesis by (intro exI [of _ "dict_set ?base ''vm_node'' node"]) (simp add: dict_set_map_of)
  next
    case False
    with assms(1) st have "vars = dict_update ?base kwargs"
      by (simp add: vm_extra_vars_def)
    then show ?thesis by (intro exI [of _ ?base]) simp
  qed
  then obtain base' where vars: "vars = dict_update base' kwargs"
    and b: "map_of base' ''vm_id'' = Some vm_id" "map_of base' ''vm_name'' = Some vm_name"
    by blast
  show ?thesis
    using b by (simp add: vars dict_update_map_of_other [OF assms(2)]
        dict_update_map_of_other [OF assms(3)])
qed

lemma ct_extra_vars_base:
  assumes "ct_extra_vars operation ct_id ct_hostname node kwargs = Inr vars"
    and "''ct_id'' \<notin> set (dict_keys kwargs)" and "''ct_hostname'' \<notin> set (dict_keys kwargs)"
  shows "map_of vars ''ct_id'' = Some ct_id \<and> map_of vars ''ct_hostname'' = Some ct_hostname"
proof -
  from assms(1) obtain state where st: "map_of op_map operation = Some state"
    by (cases "map_of op_map operation") (simp_all add: ct_extra_vars_def)
  let ?base = "[(''ct_state'', PStr state), (''ct_id'', ct_id), (''ct_hostname'', ct_hostname)]"
  have "\<exists>base'. vars = dict_update base' kwargs
          \<and> map_of base' ''ct_id'' = Some ct_id \<and> map_of base' ''ct_hostname'' = Some ct_hostname"
  proof (cases "truthy node")
    case True
    with assms(1) st have "vars = dict_update (dict_set ?base ''ct_node'' node) kwargs"
      by (simp add: ct_extra_vars_def)
    then show ?thesis by (intro exI [of _ "dict_set ?base ''ct_node'' node"]) (simp add: dict_set_map_of)
  next
    case False
    with assms(1) st have "vars = dict_update ?base kwargs"
      by (simp add: ct_extra_vars_def)
    then show ?thesis by (intro exI [of _ ?base]) simp
  qed
  then obtain base' where vars: "vars = dict_update base' kwargs"
    and b: "map_of base' ''ct_id'' = Some ct_id" "map_of base' ''ct_hostname'' = Some ct_hostname"
    by blast
  show ?thesis
    using b by (simp add: vars dict_update_map_of_other [OF assms(2)]
        dict_update_map_of_other [OF assms(3)])
qed

lemma vm_call_vars_base:
  assumes "vm_call_vars operation kw = Inr (Inr vars)"
  shows "map_of vars ''vm_id'' = Some (arg_of kw ''vm_id'')
       \<and> map_of vars ''vm_name'' = Some (arg_of kw ''vm_name'')"
proof -
  let ?kwargs = "kwargs_of [''self'', ''operation'', ''vm_id'', ''vm_name'', ''node''] kw"
  from assms have "vm_extra_vars operation (arg_of kw ''vm_id'') (arg_of kw ''vm_name'')
      (arg_of kw ''node'') ?kwargs = Inr vars"
    by (simp add: vm_call_vars_def call_with_keywords_ok)
  moreover have "''vm_id'' \<notin> set (dict_keys ?kwargs)" and "''vm_name'' \<notin> set (dict_keys ?kwargs)"
    by (simp_all add: kwargs_of_keys)
  ultimately show ?thesis by (rule vm_extra_vars_base)
qed

lemma ct_call_vars_base:
  assumes "ct_call_vars operation kw = Inr (Inr vars)"
  shows "map_of vars ''ct_id'' = Some (arg_of kw ''ct_id'')
       \<and> map_of vars ''ct_hostname'' = Some (arg_of kw ''ct_hostname'')"
proof -
  let ?kwargs = "kwargs_of [''self'', ''operation'', ''ct_id'', ''ct_hostname'', ''node''] kw"
  from assms have "ct_extra_vars operation (arg_of kw ''ct_id'') (arg_of kw ''ct_hostname'')
      (arg_of kw ''node'') ?kwargs = Inr vars"
    by (simp add: ct_call_vars_def call_with_keywords_ok)
  moreover have "''ct_id'' \<notin> set (dict_keys ?kwargs)"
    and "''ct_hostname'' \<notin> set (dict_keys ?kwargs)"
    by (simp_all add: kwargs_of_keys)
  ultimately show ?thesis by (rule ct_extra_vars_base)
qed

lemma backup_extra_vars_closed:
  "backup_extra_vars operation vm_id backup_id storage node kwargs =
     (if operation \<notin> set valid_operations
      then Inl (invalid_operation operation valid_operations)
      else Inr (dict_update
                  ([(''operation'', PStr operation)]
                   @ (if truthy vm_id then [(''vm_id'', vm_id)] else [])
                   @ (if truthy backup_id then [(''backup_id'', backup_id)] else [])
                   @ (if truthy storage then [(''storage'', storage)] else [])
                   @ (if truthy node then [(''node'', node)] else []))
                  kwargs))"
  by (cases "truthy vm_id"; cases "truthy backup_id"; cases "truthy storage"; cases "truthy node")
    (simp_all add: backup_extra_vars_def dict_set_def)

lemma cluster_extra_vars_closed:
  "cluster_extra_vars operation target_node source_node cluster_name kwargs =
     dict_update
       ([(''operation'', PStr operation)]
        @ (if truthy target_node then [(''target_node'', target_node)] else [])
        @ (if truthy source_node then [(''source_node'', source_node)] else [])
        @ (if truthy cluster_name then [(''cluster_name'', cluster_name)] else []))
       kwargs"
  by (cases "truthy target_node"; cases "truthy source_node"; cases "truthy cluster_name")
    (simp_all add: cluster_extra_vars_def dict_set_def)

lemma backup_call_vars_base:
  assumes "backup_call_vars operation kw = Inr (Inr vars)"
  shows "map_of vars ''operation'' = Some (PStr operation)
       \<and> map_of vars ''vm_id''
           = (if truthy (arg_of kw ''vm_id'') then Some (arg_of kw ''vm_id'') else None)
       \<and> map_of vars ''backup_id''
           = (if truthy (arg_of kw ''backup_id'') then Some (arg_of kw ''backup_id'') else None)
       \<and> map_of vars ''storage''
           = (if truthy (arg_of kw ''storage'') then Some (arg_of kw ''storage'') else None)
       \<and> map_of vars ''node''
           = (if truthy (arg_of kw ''node'') then Some (arg_of kw ''node'') else None)"
proof -
  let ?kwargs = "kwargs_of [''self'', ''operation'', ''vm_id'', ''backup_id'', ''storage'', ''node''] kw"
  let ?base = "[(''operation'', PStr operation)]
                   @ (if truthy (arg_of kw ''vm_id'') then [(''vm_id'', arg_of kw ''vm_id'')] else [])
                   @ (if truthy (arg_of kw ''backup_id'') then [(''backup_id'', arg_of kw ''backup_id'')] else [])
                   @ (if truthy (arg_of kw ''storage'') then [(''storage'', arg_of kw ''storage'')] else [])
                   @ (if truthy (arg_of kw ''node'') then [(''node'', arg_of kw ''node'')] else [])"
  from assms have e: "backup_extra_vars operation (arg_of kw ''vm_id'') (arg_of kw ''backup_id'')
      (arg_of kw ''storage'') (arg_of kw ''node'') ?kwargs = Inr vars"
    by (simp add: backup_call_vars_def call_with_keywords_ok)
  have valid: "operation \<in> set valid_operations"
    using e unfolding backup_extra_vars_closed
    by (cases "operation \<in> set valid_operations") simp_all
  have "Inr (dict_update ?base ?kwargs) = (Inr vars :: string + dict)"
    using e valid unfolding backup_extra_vars_closed by (simp only: not_not not_True_eq_False if_True if_False)
  then have vars: "vars = dict_update ?base ?kwargs"
    by (simp only: sum.inject)
  have k: "''operation'' \<notin> set (dict_keys ?kwargs)" "''vm_id'' \<notin> set (dict_keys ?kwargs)"
    "''backup_id'' \<notin> set (dict_keys ?kwargs)" "''storage'' \<notin> set (dict_keys ?kwargs)"
    "''node'' \<notin> set (dict_keys ?kwargs)"
    by (simp_all add: kwargs_of_keys)
  have m1: "map_of vars ''operation'' = map_of ?base ''operation''"
    unfolding vars by (rule dict_update_map_of_other [OF k(1)])
  have m2: "map_of vars ''vm_id'' = map_of ?base ''vm_id''"
    unfolding vars by (rule dict_update_map_of_other [OF k(2)])
  have m3: "map_of vars ''backup_id'' = map_of ?base ''backup_id''"
    unfolding vars by (rule dict_update_map_of_other [OF k(3)])
  have m4: "map_of vars ''storage'' = map_of ?base ''storage''"
    unfolding vars by (rule dict_update_map_of_other [OF k(4)])
  have m5: "map_of vars ''node'' = map_of ?base ''node''"
    unfolding vars by (rule dict_update_map_of_other [OF k(5)])
  from m1 m2 m3 m4 m5
  show ?thesis by simp
qed

lemma cluster_call_vars_base:
  assumes "cluster_call_vars operation kw = Inr vars"
  shows "map_of vars ''operation'' = Some (PStr operation)
       \<and> map_of vars ''target_node''
           = (if truthy (arg_of kw ''target_node'') then Some (arg_of kw ''target_node'') else None)
       \<and> map_of vars ''source_node''
           = (if truthy (arg_of kw ''source_node'') then Some (arg_of kw ''source_node'') else None)
       \<and> map_of vars ''cluster_name''
           = (if truthy (arg_of kw ''cluster_name'') then Some (arg_of kw ''cluster_name'') else None)"
proof -
  let ?kwargs = "kwargs_of [''self'', ''operation'', ''target_node'', ''source_node'', ''cluster_name''] kw"
  let ?base = "[(''operation'', PStr operation)]
        @ (if truthy (arg_of kw ''target_node'') then [(''target_node'', arg_of kw ''target_node'')] else [])
        @ (if truthy (arg_of kw ''source_node'') then [(''source_node'', arg_of kw ''source_node'')] else [])
        @ (if truthy (arg_of kw ''cluster_name'') then [(''cluster_name'', arg_of kw ''cluster_name'')] else [])"
  from assms have "cluster_extra_vars operation (arg_of kw ''target_node'')
      (arg_of kw ''source_node'') (arg_of kw ''cluster_name'') ?kwargs = vars"
    by (simp add: cluster_call_vars_def call_with_keywords_ok)
  then have vars: "vars = dict_update ?base ?kwargs"
    by (simp only: cluster_extra_vars_closed)
  have k: "''operation'' \<notin> set (dict_keys ?kwargs)" "''target_node'' \<notin> set (dict_keys ?kwargs)"
    "''source_node'' \<notin> set (dict_keys ?kwargs)" "''cluster_name'' \<notin> set (dict_keys ?kwargs)"
    by (simp_all add: kwargs_of_keys)
  have m1: "map_of vars ''operation'' = map_of ?base ''operation''"
    unfolding vars by (rule dict_update_map_of_other [OF k(1)])
  have m2: "map_of vars ''target_node'' = map_of ?base ''target_node''"
    unfolding vars by (rule dict_update_map_of_other [OF k(2)])
  have m3: "map_of vars ''source_node'' = map_of ?base ''source_node''"
    unfolding vars by (rule dict_update_map_of_other [OF k(3)])
  have m4: "map_of vars ''cluster_name'' = map_of ?base ''cluster_name''"
    unfolding vars by (rule dict_update_map_of_other [OF k(4)])
  from m1 m2 m3 m4
  show ?thesis by simp
qed

lemma vm_state_overwritten:
  "vm_call_vars ''create'' [(''vm_state'', PStr ''absent'')]
     = Inr (Inr [(''vm_state'', PStr ''absent''), (''vm_id'', PNone), (''vm_name'', PNone)])"
  by (simp add: vm_call_vars_def call_with_keywords_def dict_keys_def arg_of_def
      kwargs_of_def vm_extra_vars_def op_map_def dict_update_def dict_set_def)

lemma vm_node_overwritten:
  "vm_call_vars ''create'' [(''node'', PStr ''pve1''), (''vm_node'', PStr ''pve2'')]
     = Inr (Inr [(''vm_state'', PStr ''present''), (''vm_id'', PNone), (''vm_name'', PNone),
                 (''vm_node'', PStr ''pve2'')])"
  by (simp add: vm_call_vars_def call_with_keywords_def dict_keys_def arg_of_def
      kwargs_of_def vm_extra_vars_def op_map_def dict_update_def dict_set_def)

lemma ct_state_overwritten:
  "ct_call_vars ''create'' [(''ct_state'', PStr ''absent'')]
     = Inr (Inr [(''ct_state'', PStr ''absent''), (''ct_id'', PNone), (''ct_hostname'', PNone)])"
  by (simp add: ct_call_vars_def call_with_keywords_def dict_keys_def arg_of_def
      kwargs_of_def ct_extra_vars_def op_map_def dict_update_def dict_set_def)

lemma ct_node_overwritten:
  "ct_call_vars ''create'' [(''node'', PStr ''pve1''), (''ct_node'', PStr ''pve2'')]
     = Inr (Inr [(''ct_state'', PStr ''present''), (''ct_id'', PNone), (''ct_hostname'', PNone),
                 (''ct_node'', PStr ''pve2'')])"
  by (simp add: ct_call_vars_def call_with_keywords_def dict_keys_def arg_of_def
      kwargs_of_def ct_extra_vars_def op_map_def dict_update_def dict_set_def)

lemma siblings_refuse:
  "run_vm_management w mgr ''bogus'' vm_id vm_name node kwargs
     = ((False, ''Invalid operation '' @ CHR 0x27 # ''bogus'' @ CHR 0x27 #
           ''. Must be one of: create, start, stop, restart, delete''), [])
   \<and> run_container_management w mgr ''bogus'' ct_id ct_hostname node kwargs
     = ((False, ''Invalid operation '' @ CHR 0x27 # ''bogus'' @ CHR 0x27 #
           ''. Must be one of: create, start, stop, restart, delete''), [])
   \<and> run_backup_management w mgr ''bogus'' vm_id backup_id storage node kwargs
     = ((False, ''Invalid operation '' @ CHR 0x27 # ''bogus'' @ CHR 0x27 #
           ''. Must be one of: list, create, restore, delete, schedule''), [])"
proof -
  have v: "vm_extra_vars ''bogus'' vm_id vm_name node kwargs
      = Inl (''Invalid operation '' @ CHR 0x27 # ''bogus'' @ CHR 0x27 #
           ''. Must be one of: create, start, stop, restart, delete'')"
    by (simp add: vm_extra_vars_def op_map_def invalid_operation_def dict_keys_def)
  have c: "ct_extra_vars ''bogus'' ct_id ct_hostname node kwargs
      = Inl (''Invalid operation '' @ CHR 0x27 # ''bogus'' @ CHR 0x27 #
           ''. Must be one of: create, start, stop, restart, delete'')"
    by (simp add: ct_extra_vars_def op_map_def invalid_operation_def dict_keys_def)
  have b: "backup_extra_vars ''bogus'' vm_id backup_id storage node kwargs
      = Inl (''Invalid operation '' @ CHR 0x27 # ''bogus'' @ CHR 0x27 #
           ''. Must be one of: list, create, restore, delete, schedule'')"
    by (simp add: backup_extra_vars_def valid_operations_def invalid_operation_def)
  show ?thesis
    by (simp only: run_vm_management_def run_container_management_def
        run_backup_management_def v c b sum.case)
qed

text \<open>
  Claim C1. The claim has \<open>run_cluster_management\<close> refuse an operation keyword outside
  \<open>status\<close>, \<open>create_cluster\<close>, \<open>join_cluster\<close>, \<open>leave_cluster\<close>, \<open>enable_ha\<close> before
  any subprocess, as the other three mappers do. The cluster mapper has no such check:
  with the cluster playbook in the registry the keyword \<open>bogus\<close> goes into the variable
  mapping, the subprocess is invoked, and its success is returned. The other three
  mappers return their \<open>Invalid operation\<close> message for the same keyword, with no
  subprocess.
\<close>

theorem run_cluster_management_unchecked:
  "''bogus'' \<notin> {''status'', ''create_cluster'', ''join_cluster'', ''leave_cluster'', ''enable_ha''}
   \<and> run_cluster_management
       \<lparr> json_dumps = dumps, subprocess_run = (\<lambda>i. Completed 0 ''ok'' []) \<rparr>
       \<lparr> ansible_path = ''/srv/ansible'', inventory_path = ''/srv/ansible/inventory'',
         playbooks_path = ''/srv/ansible/playbooks'',
         available_playbooks =
           [(''proxmox_cluster_manager'', ''/srv/ansible/playbooks/proxmox_cluster_manager.yml'')] \<rparr>
       ''bogus'' PNone PNone PNone []
     = ((True, ''ok''),
        [\<lparr> cmd = [''ansible-playbook'', ''/srv/ansible/playbooks/proxmox_cluster_manager.yml'',
                  ''--extra-vars'', dumps [(''operation'', PStr ''bogus'')]],
           env_ANSIBLE_CONFIG = ''/srv/ansible/ansible.cfg'', cwd = ''/srv/ansible'' \<rparr>])
   \<and> run_vm_management w mgr ''bogus'' vm_id vm_name node kwargs
     = ((False, ''Invalid operation '' @ CHR 0x27 # ''bogus'' @ CHR 0x27 #
           ''. Must be one of: create, start, stop, restart, delete''), [])
   \<and> run_container_management w mgr ''bogus'' ct_id ct_hostname node kwargs
     = ((False, ''Invalid operation '' @ CHR 0x27 # ''bogus'' @ CHR 0x27 #
           ''. Must be one of: create, start, stop, restart, delete''), [])
   \<and> run_backup_management w mgr ''bogus'' vm_id backup_id storage node kwargs
     = ((False, ''Invalid operation '' @ CHR 0x27 # ''bogus'' @ CHR 0x27 #
           ''. Must be one of: list, create, restore, delete, schedule''), [])"
proof -
  have v: "cluster_extra_vars ''bogus'' PNone PNone PNone [] = [(''operation'', PStr ''bogus'')]"
    by (simp add: cluster_extra_vars_def dict_update_def)
  have c: "build_cmd \<lparr> json_dumps = dumps, subprocess_run = (\<lambda>i. Completed 0 ''ok'' []) \<rparr>
             ''/srv/ansible/playbooks/proxmox_cluster_manager.yml''
             (Some [(''operation'', PStr ''bogus'')]) None None False
           = [''ansible-playbook'', ''/srv/ansible/playbooks/proxmox_cluster_manager.yml'',
                  ''--extra-vars'', dumps [(''operation'', PStr ''bogus'')]]"
    by (simp add: build_cmd_def)
  have j: "os_path_join ''/srv/ansible'' ''ansible.cfg'' = ''/srv/ansible/ansible.cfg''"
    by (simp add: os_path_join_def startswith_def endswith_def)
  have n: "''bogus'' \<notin> {''status'', ''create_cluster'', ''join_cluster'', ''leave_cluster'',
      ''enable_ha''}"
    by simp
  have r: "run_cluster_management
       \<lparr> json_dumps = dumps, subprocess_run = (\<lambda>i. Completed 0 ''ok'' []) \<rparr>
       \<lparr> ansible_path = ''/srv/ansible'', inventory_path = ''/srv/ansible/inventory'',
         playbooks_path = ''/srv/ansible/playbooks'',
         available_playbooks =
           [(''proxmox_cluster_manager'', ''/srv/ansible/playbooks/proxmox_cluster_manager.yml'')] \<rparr>
       ''bogus'' PNone PNone PNone []
     = ((True, ''ok''),
        [\<lparr> cmd = [''ansible-playbook'', ''/srv/ansible/playbooks/proxmox_cluster_manager.yml'',
                  ''--extra-vars'', dumps [(''operation'', PStr ''bogus'')]],
           env_ANSIBLE_CONFIG = ''/srv/ansible/ansible.cfg'', cwd = ''/srv/ansible'' \<rparr>])"
    by (simp add: run_cluster_management_def v run_playbook_def c j)
  from n r siblings_refuse [of w mgr vm_id vm_name node kwargs ct_id ct_hostname backup_id storage]
  show ?thesis by (intro conjI) simp_all
qed

text \<open>
  Claim C9, as amended. The additional attributes are merged after the base fields, so an
  attribute named \<open>vm_state\<close> or \<open>vm_node\<close> (\<open>ct_state\<close>, \<open>ct_node\<close>) replaces the
  derived value. The keys \<open>vm_id\<close>, \<open>vm_name\<close>, \<open>ct_id\<close>, \<open>ct_hostname\<close> and every base
  key of the cluster and backup mappings are parameter names of their function: a keyword
  of that name is the parameter itself, never an additional attribute, and in every call
  the mapping holds the parameter's value under it.
\<close>

theorem kwargs_overwrite:
  "vm_call_vars ''create'' [(''vm_state'', PStr ''absent'')]
     = Inr (Inr [(''vm_state'', PStr ''absent''), (''vm_id'', PNone), (''vm_name'', PNone)])
   \<and> vm_call_vars ''create'' [(''node'', PStr ''pve1''), (''vm_node'', PStr ''pve2'')]
     = Inr (Inr [(''vm_state'', PStr ''present''), (''vm_id'', PNone), (''vm_name'', PNone),
                 (''vm_node'', PStr ''pve2'')])
   \<and> ct_call_vars ''create'' [(''ct_state'', PStr ''absent'')]
     = Inr (Inr [(''ct_state'', PStr ''absent''), (''ct_id'', PNone), (''ct_hostname'', PNone)])
   \<and> ct_call_vars ''create'' [(''node'', PStr ''pve1''), (''ct_node'', PStr ''pve2'')]
     = Inr (Inr [(''ct_state'', PStr ''present''), (''ct_id'', PNone), (''ct_hostname'', PNone),
                 (''ct_node'', PStr ''pve2'')])
   \<and> (\<forall>operation kw vars. vm_call_vars operation kw = Inr (Inr vars) \<longrightarrow>
          map_of vars ''vm_id'' = Some (arg_of kw ''vm_id'')
          \<and> map_of vars ''vm_name'' = Some (arg_of kw ''vm_name''))
   \<and> (\<forall>operation kw vars. ct_call_vars operation kw = Inr (Inr vars) \<longrightarrow>
          map_of vars ''ct_id'' = Some (arg_of kw ''ct_id'')
          \<and> map_of vars ''ct_hostname'' = Some (arg_of kw ''ct_hostname''))
   \<and> (\<forall>operation kw vars. cluster_call_vars operation kw = Inr vars \<longrightarrow>
          map_of vars ''operation'' = Some (PStr operation)
          \<and> map_of vars ''target_node''
              = (if truthy (arg_of kw ''target_node'') then Some (arg_of kw ''target_node'')
                 else None)
          \<and> map_of vars ''source_node''
              = (if truthy (arg_of kw ''source_node'') then Some (arg_of kw ''source_node'')
                 else None)
          \<and> map_of vars ''cluster_name''
              = (if truthy (arg_of kw ''cluster_name'') then Some (arg_of kw ''cluster_name'')
                 else None))
   \<and> (\<forall>operation kw vars. backup_call_vars operation kw = Inr (Inr vars) \<longrightarrow>
          map_of vars ''operation'' = Some (PStr operation)
          \<and> map_of vars ''vm_id''
              = (if truthy (arg_of kw ''vm_id'') then Some (arg_of kw ''vm_id'') else None)
          \<and> map_of vars ''backup_id''
              = (if truthy (arg_of kw ''backup_id'') then Some (arg_of kw ''backup_id'') else None)
          \<and> map_of vars ''storage''
              = (if truthy (arg_of kw ''storage'') then Some (arg_of kw ''storage'') else None)
          \<and> map_of vars ''node''
              = (if truthy (arg_of kw ''node'') then Some (arg_of kw ''node'') else None))"
proof -
  have vm: "\<forall>operation kw vars. vm_call_vars operation kw = Inr (Inr vars) \<longrightarrow>
          map_of vars ''vm_id'' = Some (arg_of kw ''vm_id'')
          \<and> map_of vars ''vm_name'' = Some (arg_of kw ''vm_name'')"
    by (intro allI impI) (rule vm_call_vars_base)
  have ct: "\<forall>operation kw vars. ct_call_vars operation kw = Inr (Inr vars) \<longrightarrow>
          map_of vars ''ct_id'' = Some (arg_of kw ''ct_id'')
          \<and> map_of vars ''ct_hostname'' = Some (arg_of kw ''ct_hostname'')"
    by (intro allI impI) (rule ct_call_vars_base)
  have cluster: "\<forall>operation kw vars. cluster_call_vars operation kw = Inr vars \<longrightarrow>
          map_of vars ''operation'' = Some (PStr operation)
          \<and> map_of vars ''target_node''
              = (if truthy (arg_of kw ''target_node'') then Some (arg_of kw ''target_node'')
                 else None)
          \<and> map_of vars ''source_node''
              = (if truthy (arg_of kw ''source_node'') then Some (arg_of kw ''source_node'')
                 else None)
          \<and> map_of vars ''cluster_name''
              = (if truthy (arg_of kw ''cluster_name'') then Some (arg_of kw ''cluster_name'')
                 else None)"
    by (intro allI impI) (rule cluster_call_vars_base)
  have backup: "\<forall>operation kw vars. backup_call_vars operation kw = Inr (Inr vars) \<longrightarrow>
          map_of vars ''operation'' = Some (PStr operation)
          \<and> map_of vars ''vm_id''
              = (if truthy (arg_of kw ''vm_id'') then Some (arg_of kw ''vm_id'') else None)
          \<and> map_of vars ''backup_id''
              = (if truthy (arg_of kw ''backup_id'') then Some (arg_of kw ''backup_id'') else None)
          \<and> map_of vars ''storage''
              = (if truthy (arg_of kw ''storage'') then Some (arg_of kw ''storage'') else None)
          \<and> map_of vars ''node''
              = (if truthy (arg_of kw ''node'') then Some (arg_of kw ''node'') else None)"
    by (intro allI impI) (rule backup_call_vars_base)
  from vm_state_overwritten vm_node_overwritten ct_state_overwritten ct_node_overwritten
    vm ct cluster backup
  show ?thesis by (intro conjI)
qed

text \<open>A call that passes \<open>vm_id\<close> and \<open>memory\<close>.\<close>

theorem kwargs_overwrite_witness:
  "\<exists>vars. vm_call_vars ''create'' [(''vm_id'', PStr ''100''), (''memory'', PInt 2048)]
             = Inr (Inr vars)
          \<and> map_of vars ''vm_id'' = Some (PStr ''100'')
          \<and> map_of vars ''vm_name'' = Some PNone"
proof -
  let ?kw = "[(''vm_id'', PStr ''100''), (''memory'', PInt 2048)]"
  let ?vars = "[(''vm_state'', PStr ''present''), (''vm_id'', PStr ''100''), (''vm_name'', PNone),
                (''memory'', PInt 2048)]"
  have c: "vm_call_vars ''create'' ?kw = Inr (Inr ?vars)"
    by (simp add: vm_call_vars_def call_with_keywords_def dict_keys_def arg_of_def
        kwargs_of_def vm_extra_vars_def op_map_def dict_update_def dict_set_def)
  have a: "arg_of ?kw ''vm_id'' = PStr ''100''" "arg_of ?kw ''vm_name'' = PNone"
    by (simp_all add: arg_of_def)
  from kwargs_overwrite c
  have "map_of ?vars ''vm_id'' = Some (arg_of ?kw ''vm_id'')
      \<and> map_of ?vars ''vm_name'' = Some (arg_of ?kw ''vm_name'')"
    by blast
  with c show ?thesis by (simp only: a) blast
qed

text \<open>
  No call overwrites \<open>vm_id\<close>: passing it twice is a \<open>TypeError\<close>, and in every call
  that builds a mapping the value under \<open>vm_id\<close> is the parameter.
\<close>

theorem kwargs_overwrite_counterexample:
  "vm_call_vars ''create'' [(''vm_id'', PStr ''100''), (''vm_id'', PStr ''999'')] = Inl TypeError
   \<and> \<not> (\<exists>operation kw vars. vm_call_vars operation kw = Inr (Inr vars)
            \<and> map_of vars ''vm_id'' \<noteq> Some (arg_of kw ''vm_id''))"
proof -
  have "vm_call_vars ''create'' [(''vm_id'', PStr ''100''), (''vm_id'', PStr ''999'')]
          = Inl TypeError"
    by (simp add: vm_call_vars_def call_with_keywords_def dict_keys_def)
  moreover have "\<not> (\<exists>operation kw vars. vm_call_vars operation kw = Inr (Inr vars)
            \<and> map_of vars ''vm_id'' \<noteq> Some (arg_of kw ''vm_id''))"
    using vm_call_vars_base by blast
  ultimately show ?thesis by (rule conjI)
qed



section \<open>The backup sub-command\<close>

lemma schedule_fold_keys:
  "set (dict_keys (fold (\<lambda>(param, v) kwargs.
                    case v of None \<Rightarrow> kwargs | Some s \<Rightarrow> dict_set kwargs param (PStr s))
              xs acc))
     \<subseteq> set (dict_keys acc) \<union> fst ` set xs"
proof (induction xs arbitrary: acc)
  case Nil
  then show ?case by simp
next
  case (Cons x xs)
  obtain param v where x: "x = (param, v)" by (cases x)
  show ?case
  proof (cases v)
    case None
    with Cons.IH [of acc] show ?thesis by (auto simp: x)
  next
    case (Some s)
    with Cons.IH [of "dict_set acc param (PStr s)"] show ?thesis
      by (auto simp: x dict_set_keys)
  qed
qed

lemma schedule_fold_distinct:
  "distinct (dict_keys acc) \<Longrightarrow>
   distinct (dict_keys (fold (\<lambda>(param, v) kwargs.
                    case v of None \<Rightarrow> kwargs | Some s \<Rightarrow> dict_set kwargs param (PStr s))
              xs acc))"
proof (induction xs arbitrary: acc)
  case Nil
  then show ?case by simp
next
  case (Cons x xs)
  obtain param v where x: "x = (param, v)" by (cases x)
  show ?case
  proof (cases v)
    case None
    with Cons.IH [of acc] Cons.prems show ?thesis by (simp add: x)
  next
    case (Some s)
    with Cons.IH [of "dict_set acc param (PStr s)"] Cons.prems show ?thesis
      by (simp add: x dict_set_distinct)
  qed
qed

lemma subset_two_inserts: "A \<subseteq> insert c (insert m B) \<Longrightarrow> B \<subseteq> S \<Longrightarrow> A \<subseteq> insert c (insert m S)"
  by blast

lemma not_in_subset: "x \<notin> S \<Longrightarrow> B \<subseteq> S \<Longrightarrow> x \<notin> B"
  by blast

lemma backup_kwargs_keys:
  "set (dict_keys (backup_kwargs args))
     \<subseteq> {''compress'', ''mode'', ''schedule_hour'', ''schedule_minute'', ''schedule_day'',
         ''schedule_month'', ''schedule_weekday''}"
proof -
  let ?sched = "fold (\<lambda>(param, v) kwargs.
                    case v of None \<Rightarrow> kwargs | Some s \<Rightarrow> dict_set kwargs param (PStr s))
              [(''schedule_hour'', ns_schedule_hour args),
               (''schedule_minute'', ns_schedule_minute args),
               (''schedule_day'', ns_schedule_day args),
               (''schedule_month'', ns_schedule_month args),
               (''schedule_weekday'', ns_schedule_weekday args)]
              ([] :: dict)"
  have "set (dict_keys ?sched) \<subseteq> set (dict_keys ([] :: dict))
      \<union> fst ` set [(''schedule_hour'', ns_schedule_hour args),
               (''schedule_minute'', ns_schedule_minute args),
               (''schedule_day'', ns_schedule_day args),
               (''schedule_month'', ns_schedule_month args),
               (''schedule_weekday'', ns_schedule_weekday args)]"
    by (rule schedule_fold_keys)
  then have s: "set (dict_keys ?sched) \<subseteq> {''schedule_hour'', ''schedule_minute'',
      ''schedule_day'', ''schedule_month'', ''schedule_weekday''}"
    by (simp add: dict_keys_def)
  have "set (dict_keys (backup_kwargs args))
          \<subseteq> insert ''compress'' (insert ''mode'' (set (dict_keys ?sched)))"
    unfolding backup_kwargs_def Let_def
    by (cases "truthy (opt_str (ns_mode args))"; cases "truthy (opt_str (ns_compress args))")
      (auto simp: dict_set_keys)
  then show ?thesis using s by (rule subset_two_inserts)
qed

lemma backup_kwargs_distinct: "distinct (dict_keys (backup_kwargs args))"
proof -
  have "distinct (dict_keys ([] :: dict))" by (simp add: dict_keys_def)
  then have "distinct (dict_keys (fold (\<lambda>(param, v) kwargs.
                    case v of None \<Rightarrow> kwargs | Some s \<Rightarrow> dict_set kwargs param (PStr s))
              [(''schedule_hour'', ns_schedule_hour args),
               (''schedule_minute'', ns_schedule_minute args),
               (''schedule_day'', ns_schedule_day args),
               (''schedule_month'', ns_schedule_month args),
               (''schedule_weekday'', ns_schedule_weekday args)]
              ([] :: dict)))"
    by (rule schedule_fold_distinct)
  then show ?thesis
    unfolding backup_kwargs_def Let_def by (simp add: dict_set_distinct)
qed

lemma backup_kwargs_mode_compress:
  "map_of (backup_kwargs args) ''mode''
     = (if truthy (opt_str (ns_mode args)) then Some (opt_str (ns_mode args)) else None)
   \<and> map_of (backup_kwargs args) ''compress''
     = (if truthy (opt_str (ns_compress args)) then Some (opt_str (ns_compress args)) else None)"
proof -
  let ?sched = "fold (\<lambda>(param, v) kwargs.
                    case v of None \<Rightarrow> kwargs | Some s \<Rightarrow> dict_set kwargs param (PStr s))
              [(''schedule_hour'', ns_schedule_hour args),
               (''schedule_minute'', ns_schedule_minute args),
               (''schedule_day'', ns_schedule_day args),
               (''schedule_month'', ns_schedule_month args),
               (''schedule_weekday'', ns_schedule_weekday args)]
              ([] :: dict)"
  have "set (dict_keys ?sched) \<subseteq> set (dict_keys ([] :: dict))
      \<union> fst ` set [(''schedule_hour'', ns_schedule_hour args),
               (''schedule_minute'', ns_schedule_minute args),
               (''schedule_day'', ns_schedule_day args),
               (''schedule_month'', ns_schedule_month args),
               (''schedule_weekday'', ns_schedule_weekday args)]"
    by (rule schedule_fold_keys)
  then have s: "set (dict_keys ?sched) \<subseteq> {''schedule_hour'', ''schedule_minute'',
      ''schedule_day'', ''schedule_month'', ''schedule_weekday''}"
    by (simp add: dict_keys_def)
  have m: "''mode'' \<notin> {''schedule_hour'', ''schedule_minute'',
      ''schedule_day'', ''schedule_month'', ''schedule_weekday''}"
    and c: "''compress'' \<notin> {''schedule_hour'', ''schedule_minute'',
      ''schedule_day'', ''schedule_month'', ''schedule_weekday''}"
    by simp_all
  have "''mode'' \<notin> set (dict_keys ?sched)" using m s by (rule not_in_subset)
  moreover have "''compress'' \<notin> set (dict_keys ?sched)" using c s by (rule not_in_subset)
  ultimately have "''mode'' \<notin> set (dict_keys ?sched)" and "''compress'' \<notin> set (dict_keys ?sched)"
    by this+
  then have n: "map_of ?sched ''mode'' = None" "map_of ?sched ''compress'' = None"
    by (simp_all add: in_keys_iff)
  show ?thesis
    unfolding backup_kwargs_def Let_def
    using n by (simp add: dict_set_map_of)
qed

lemma kwargs_of_disjoint:
  "set (dict_keys d) \<subseteq> S \<Longrightarrow> S \<inter> set params = {} \<Longrightarrow> kwargs_of params d = d"
  unfolding kwargs_of_def dict_keys_def
  by (rule filter_True) (auto simp: subset_iff disjoint_iff)

lemma disjoint_by_bounds:
  "A \<subseteq> S \<Longrightarrow> B \<subseteq> T \<Longrightarrow> S \<inter> T = {} \<Longrightarrow> A \<inter> B = {}"
  by blast

lemma map_of_append_fresh:
  "k \<notin> set (dict_keys base) \<Longrightarrow> map_of (base @ d) k = map_of d k"
  by (simp add: in_keys_iff map_add_def)

lemma backup_base_keys:
  "set (dict_keys ([(''operation'', PStr operation)]
                   @ (if truthy vm_id then [(''vm_id'', vm_id)] else [])
                   @ (if truthy backup_id then [(''backup_id'', backup_id)] else [])
                   @ (if truthy storage then [(''storage'', storage)] else [])
                   @ (if truthy node then [(''node'', node)] else [])))
     \<subseteq> {''operation'', ''vm_id'', ''backup_id'', ''storage'', ''node''}"
  by (cases "truthy vm_id"; cases "truthy backup_id"; cases "truthy storage"; cases "truthy node")
    (simp_all add: dict_keys_def)

lemma handle_backup_command_vars_exact:
  assumes "ns_operation args \<in> set valid_operations"
  shows "handle_backup_command_vars args =
     Inr (Inr (([(''operation'', PStr (ns_operation args))]
                @ (if truthy (opt_str (ns_vm_id args))
                   then [(''vm_id'', opt_str (ns_vm_id args))] else [])
                @ (if truthy (opt_str (ns_backup_id args))
                   then [(''backup_id'', opt_str (ns_backup_id args))] else [])
                @ (if truthy (opt_str (ns_storage args))
                   then [(''storage'', opt_str (ns_storage args))] else [])
                @ (if truthy (opt_str (ns_node args))
                   then [(''node'', opt_str (ns_node args))] else []))
               @ backup_kwargs args))"
proof -
  let ?four = "[(''vm_id'', opt_str (ns_vm_id args)),
         (''backup_id'', opt_str (ns_backup_id args)),
         (''storage'', opt_str (ns_storage args)),
         (''node'', opt_str (ns_node args))]"
  let ?kwargs = "backup_kwargs args"
  let ?kw = "?four @ ?kwargs"
  let ?K = "{''compress'', ''mode'', ''schedule_hour'', ''schedule_minute'', ''schedule_day'',
         ''schedule_month'', ''schedule_weekday''}"
  let ?base = "[(''operation'', PStr (ns_operation args))]
                @ (if truthy (opt_str (ns_vm_id args))
                   then [(''vm_id'', opt_str (ns_vm_id args))] else [])
                @ (if truthy (opt_str (ns_backup_id args))
                   then [(''backup_id'', opt_str (ns_backup_id args))] else [])
                @ (if truthy (opt_str (ns_storage args))
                   then [(''storage'', opt_str (ns_storage args))] else [])
                @ (if truthy (opt_str (ns_node args))
                   then [(''node'', opt_str (ns_node args))] else [])"
  have K: "set (dict_keys ?kwargs) \<subseteq> ?K" by (rule backup_kwargs_keys)
  have notin: "''vm_id'' \<notin> ?K" "''backup_id'' \<notin> ?K" "''storage'' \<notin> ?K" "''node'' \<notin> ?K"
    "''self'' \<notin> ?K" "''operation'' \<notin> ?K"
    by simp_all
  have fresh: "''vm_id'' \<notin> set (dict_keys ?kwargs)" "''backup_id'' \<notin> set (dict_keys ?kwargs)"
    "''storage'' \<notin> set (dict_keys ?kwargs)" "''node'' \<notin> set (dict_keys ?kwargs)"
    "''self'' \<notin> set (dict_keys ?kwargs)" "''operation'' \<notin> set (dict_keys ?kwargs)"
    by (rule not_in_subset [OF notin(1) K], rule not_in_subset [OF notin(2) K],
        rule not_in_subset [OF notin(3) K], rule not_in_subset [OF notin(4) K],
        rule not_in_subset [OF notin(5) K], rule not_in_subset [OF notin(6) K])
  have keys: "dict_keys ?kw = [''vm_id'', ''backup_id'', ''storage'', ''node''] @ dict_keys ?kwargs"
    by (simp add: dict_keys_def)
  have d: "distinct (dict_keys ?kw)"
    unfolding keys using fresh backup_kwargs_distinct [of args] by simp
  have s: "''self'' \<notin> set (dict_keys ?kw)" and o: "''operation'' \<notin> set (dict_keys ?kw)"
    unfolding keys using fresh by simp_all
  have args: "arg_of ?kw ''vm_id'' = opt_str (ns_vm_id args)"
    "arg_of ?kw ''backup_id'' = opt_str (ns_backup_id args)"
    "arg_of ?kw ''storage'' = opt_str (ns_storage args)"
    "arg_of ?kw ''node'' = opt_str (ns_node args)"
    by (simp_all add: arg_of_def)
  have "?K \<inter> set [''self'', ''operation'', ''vm_id'', ''backup_id'', ''storage'', ''node''] = {}"
    by simp
  with K have "kwargs_of [''self'', ''operation'', ''vm_id'', ''backup_id'', ''storage'', ''node'']
      ?kwargs = ?kwargs"
    by (rule kwargs_of_disjoint)
  then have rest: "kwargs_of [''self'', ''operation'', ''vm_id'', ''backup_id'', ''storage'', ''node'']
      ?kw = ?kwargs"
    by (simp add: kwargs_of_def)
  have call: "handle_backup_command_vars args =
      Inr (backup_extra_vars (ns_operation args) (opt_str (ns_vm_id args))
             (opt_str (ns_backup_id args)) (opt_str (ns_storage args)) (opt_str (ns_node args))
             ?kwargs)"
    unfolding handle_backup_command_vars_def backup_call_vars_def call_with_keywords_def
    using d s o by (simp only: args rest) simp
  have "?K \<inter> {''operation'', ''vm_id'', ''backup_id'', ''storage'', ''node''} = {}"
    by simp
  with K backup_base_keys have "set (dict_keys ?kwargs) \<inter> set (dict_keys ?base) = {}"
    by (rule disjoint_by_bounds)
  with backup_kwargs_distinct have "dict_update ?base ?kwargs = ?base @ ?kwargs"
    by (rule dict_update_fresh)
  then show ?thesis
    using assms by (simp only: call backup_extra_vars_closed) simp
qed

lemma choices_nonempty:
  "m \<in> set mode_choices \<Longrightarrow> m \<noteq> []" "c \<in> set compress_choices \<Longrightarrow> c \<noteq> []"
  by (auto simp: mode_choices_def compress_choices_def)

lemma parse_args_backup_ok:
  "parse_args_backup given = Inr args \<longleftrightarrow>
     args = given \<and> ns_operation given \<in> set operation_choices
     \<and> choice_ok mode_choices (ns_mode given) \<and> choice_ok compress_choices (ns_compress given)"
  by (auto simp: parse_args_backup_def)

lemma handle_backup_command_vars_carried:
  assumes "ns_operation args \<in> set valid_operations"
    and "choice_ok mode_choices (ns_mode args)"
    and "choice_ok compress_choices (ns_compress args)"
  shows "\<exists>vars. handle_backup_command_vars args = Inr (Inr vars)
          \<and> map_of vars ''mode'' = map_option PStr (ns_mode args)
          \<and> map_of vars ''compress'' = map_option PStr (ns_compress args)"
proof -
  let ?base = "[(''operation'', PStr (ns_operation args))]
                @ (if truthy (opt_str (ns_vm_id args))
                   then [(''vm_id'', opt_str (ns_vm_id args))] else [])
                @ (if truthy (opt_str (ns_backup_id args))
                   then [(''backup_id'', opt_str (ns_backup_id args))] else [])
                @ (if truthy (opt_str (ns_storage args))
                   then [(''storage'', opt_str (ns_storage args))] else [])
                @ (if truthy (opt_str (ns_node args))
                   then [(''node'', opt_str (ns_node args))] else [])"
  let ?P = "{''operation'', ''vm_id'', ''backup_id'', ''storage'', ''node''}"
  have e: "handle_backup_command_vars args = Inr (Inr (?base @ backup_kwargs args))"
    using assms(1) by (rule handle_backup_command_vars_exact)
  have p: "''mode'' \<notin> ?P" "''compress'' \<notin> ?P" by simp_all
  have f: "''mode'' \<notin> set (dict_keys ?base)" "''compress'' \<notin> set (dict_keys ?base)"
    by (rule not_in_subset [OF p(1) backup_base_keys],
        rule not_in_subset [OF p(2) backup_base_keys])
  have "map_of (?base @ backup_kwargs args) ''mode'' = map_of (backup_kwargs args) ''mode''"
    using f(1) by (rule map_of_append_fresh)
  moreover have "map_of (?base @ backup_kwargs args) ''compress''
           = map_of (backup_kwargs args) ''compress''"
    using f(2) by (rule map_of_append_fresh)
  moreover have "(if truthy (opt_str (ns_mode args)) then Some (opt_str (ns_mode args)) else None)
      = map_option PStr (ns_mode args)"
    using assms(2) choices_nonempty(1)
    by (cases "ns_mode args") (auto simp: opt_str_def choice_ok_def)
  moreover have "(if truthy (opt_str (ns_compress args)) then Some (opt_str (ns_compress args))
       else None) = map_option PStr (ns_compress args)"
    using assms(3) choices_nonempty(2)
    by (cases "ns_compress args") (auto simp: opt_str_def choice_ok_def)
  ultimately have "map_of (?base @ backup_kwargs args) ''mode'' = map_option PStr (ns_mode args)"
    and "map_of (?base @ backup_kwargs args) ''compress'' = map_option PStr (ns_compress args)"
    using backup_kwargs_mode_compress [of args] by simp_all
  with e show ?thesis by blast
qed

text \<open>
  Claim C8, as amended. A backup command line the parser accepts has its mode, when given,
  among \<open>snapshot\<close>, \<open>suspend\<close>, \<open>stop\<close> and its compression method, when given, among
  \<open>0\<close>, \<open>gzip\<close>, \<open>lzo\<close>, \<open>zstd\<close>; the handler's variable mapping carries exactly these
  values under \<open>mode\<close> and \<open>compress\<close> (no key when the flag is absent); and a command
  line with any other mode or compression value is refused by the parser.
\<close>

theorem backup_mode_and_compression:
  "(parse_args_backup given = Inr args \<longrightarrow>
      (\<exists>vars. handle_backup_command_vars args = Inr (Inr vars)
          \<and> map_of vars ''mode'' = map_option PStr (ns_mode args)
          \<and> map_of vars ''compress'' = map_option PStr (ns_compress args))
      \<and> (\<forall>m. ns_mode args = Some m \<longrightarrow> m \<in> {''snapshot'', ''suspend'', ''stop''})
      \<and> (\<forall>c. ns_compress args = Some c \<longrightarrow> c \<in> {''0'', ''gzip'', ''lzo'', ''zstd''}))
   \<and> (ns_mode given = Some m \<and> m \<notin> {''snapshot'', ''suspend'', ''stop''} \<longrightarrow>
        parse_args_backup given = Inl UsageError)
   \<and> (ns_compress given = Some c \<and> c \<notin> {''0'', ''gzip'', ''lzo'', ''zstd''} \<longrightarrow>
        parse_args_backup given = Inl UsageError)"
proof -
  have sets: "set mode_choices = {''snapshot'', ''suspend'', ''stop''}"
    "set compress_choices = {''0'', ''gzip'', ''lzo'', ''zstd''}"
    by (simp_all add: mode_choices_def compress_choices_def)
  have ops: "operation_choices = valid_operations"
    by (simp add: operation_choices_def valid_operations_def)
  have accepted: "(\<exists>vars. handle_backup_command_vars args = Inr (Inr vars)
          \<and> map_of vars ''mode'' = map_option PStr (ns_mode args)
          \<and> map_of vars ''compress'' = map_option PStr (ns_compress args))
      \<and> (\<forall>m. ns_mode args = Some m \<longrightarrow> m \<in> set mode_choices)
      \<and> (\<forall>c. ns_compress args = Some c \<longrightarrow> c \<in> set compress_choices)"
    if "parse_args_backup given = Inr args"
  proof -
    from that have a: "ns_operation args \<in> set valid_operations"
      and b: "choice_ok mode_choices (ns_mode args)"
      and c: "choice_ok compress_choices (ns_compress args)"
      by (simp_all add: parse_args_backup_ok ops)
    from b c have "\<forall>m. ns_mode args = Some m \<longrightarrow> m \<in> set mode_choices"
      and "\<forall>c. ns_compress args = Some c \<longrightarrow> c \<in> set compress_choices"
      by (auto simp: choice_ok_def)
    with handle_backup_command_vars_carried [OF a b c] show ?thesis by blast
  qed
  have bad_mode: "parse_args_backup given = Inl UsageError"
    if "ns_mode given = Some m" and "m \<notin> set mode_choices"
    using that by (simp add: parse_args_backup_def choice_ok_def)
  have bad_compress: "parse_args_backup given = Inl UsageError"
    if "ns_compress given = Some c" and "c \<notin> set compress_choices"
    using that by (simp add: parse_args_backup_def choice_ok_def)
  from accepted bad_mode bad_compress show ?thesis
    unfolding sets by blast
qed

text \<open>A backup with mode \<open>snapshot\<close> and compression \<open>zstd\<close>.\<close>

theorem backup_mode_and_compression_witness:
  "parse_args_backup
       \<lparr> ns_operation = ''create'', ns_vm_id = Some ''100'', ns_backup_id = None,
         ns_storage = Some ''local'', ns_node = None, ns_mode = Some ''snapshot'',
         ns_compress = Some ''zstd'', ns_schedule_hour = None, ns_schedule_minute = None,
         ns_schedule_day = None, ns_schedule_month = None, ns_schedule_weekday = None \<rparr>
     = Inr \<lparr> ns_operation = ''create'', ns_vm_id = Some ''100'', ns_backup_id = None,
         ns_storage = Some ''local'', ns_node = None, ns_mode = Some ''snapshot'',
         ns_compress = Some ''zstd'', ns_schedule_hour = None, ns_schedule_minute = None,
         ns_schedule_day = None, ns_schedule_month = None, ns_schedule_weekday = None \<rparr>
   \<and> (\<exists>vars. handle_backup_command_vars
         \<lparr> ns_operation = ''create'', ns_vm_id = Some ''100'', ns_backup_id = None,
           ns_storage = Some ''local'', ns_node = None, ns_mode = Some ''snapshot'',
           ns_compress = Some ''zstd'', ns_schedule_hour = None, ns_schedule_minute = None,
           ns_schedule_day = None, ns_schedule_month = None, ns_schedule_weekday = None \<rparr>
         = Inr (Inr vars)
       \<and> map_of vars ''mode'' = Some (PStr ''snapshot'')
       \<and> map_of vars ''compress'' = Some (PStr ''zstd''))"
proof -
  let ?args = "\<lparr> ns_operation = ''create'', ns_vm_id = Some ''100'', ns_backup_id = None,
         ns_storage = Some ''local'', ns_node = None, ns_mode = Some ''snapshot'',
         ns_compress = Some ''zstd'', ns_schedule_hour = None, ns_schedule_minute = None,
         ns_schedule_day = None, ns_schedule_month = None, ns_schedule_weekday = None \<rparr>"
  have p: "parse_args_backup ?args = Inr ?args"
    by (simp add: parse_args_backup_def operation_choices_def mode_choices_def
        compress_choices_def choice_ok_def)
  from backup_mode_and_compression [of ?args ?args] p
  have "\<exists>vars. handle_backup_command_vars ?args = Inr (Inr vars)
          \<and> map_of vars ''mode'' = map_option PStr (ns_mode ?args)
          \<and> map_of vars ''compress'' = map_option PStr (ns_compress ?args)"
    by blast
  then have "\<exists>vars. handle_backup_command_vars ?args = Inr (Inr vars)
       \<and> map_of vars ''mode'' = Some (PStr ''snapshot'')
       \<and> map_of vars ''compress'' = Some (PStr ''zstd'')"
    by simp
  with p show ?thesis by (rule conjI)
qed

text \<open>
  The value \<open>0\<close>, which is not in the claim's set, is accepted and carried into the
  mapping; the claim's \<open>none\<close> is refused.
\<close>

theorem backup_mode_and_compression_counterexample:
  "''0'' \<notin> {''none'', ''gzip'', ''lzo'', ''zstd''}
   \<and> parse_args_backup
       \<lparr> ns_operation = ''create'', ns_vm_id = Some ''100'', ns_backup_id = None,
         ns_storage = None, ns_node = None, ns_mode = None,
         ns_compress = Some ''0'', ns_schedule_hour = None, ns_schedule_minute = None,
         ns_schedule_day = None, ns_schedule_month = None, ns_schedule_weekday = None \<rparr>
     = Inr \<lparr> ns_operation = ''create'', ns_vm_id = Some ''100'', ns_backup_id = None,
         ns_storage = None, ns_node = None, ns_mode = None,
         ns_compress = Some ''0'', ns_schedule_hour = None, ns_schedule_minute = None,
         ns_schedule_day = None, ns_schedule_month = None, ns_schedule_weekday = None \<rparr>
   \<and> handle_backup_command_vars
       \<lparr> ns_operation = ''create'', ns_vm_id = Some ''100'', ns_backup_id = None,
         ns_storage = None, ns_node = None, ns_mode = None,
         ns_compress = Some ''0'', ns_schedule_hour = None, ns_schedule_minute = None,
         ns_schedule_day = None, ns_schedule_month = None, ns_schedule_weekday = None \<rparr>
     = Inr (Inr [(''operation'', PStr ''create''), (''vm_id'', PStr ''100''),
                 (''compress'', PStr ''0'')])
   \<and> parse_args_backup
       \<lparr> ns_operation = ''create'', ns_vm_id = Some ''100'', ns_backup_id = None,
         ns_storage = None, ns_node = None, ns_mode = None,
         ns_compress = Some ''none'', ns_schedule_hour = None, ns_schedule_minute = None,
         ns_schedule_day = None, ns_schedule_month = None, ns_schedule_weekday = None \<rparr>
     = Inl UsageError"
proof -
  let ?args = "\<lparr> ns_operation = ''create'', ns_vm_id = Some ''100'', ns_backup_id = None,
         ns_storage = None, ns_node = None, ns_mode = None,
         ns_compress = Some ''0'', ns_schedule_hour = None, ns_schedule_minute = None,
         ns_schedule_day = None, ns_schedule_month = None, ns_schedule_weekday = None \<rparr>"
  have a: "''0'' \<notin> {''none'', ''gzip'', ''lzo'', ''zstd''}" by simp
  have p: "parse_args_backup ?args = Inr ?args"
    by (simp add: parse_args_backup_def operation_choices_def compress_choices_def choice_ok_def)
  have k: "backup_kwargs ?args = [(''compress'', PStr ''0'')]"
    by (simp add: backup_kwargs_def opt_str_def dict_set_def)
  have v: "ns_operation ?args \<in> set valid_operations"
    by (simp add: valid_operations_def)
  have h: "handle_backup_command_vars ?args
      = Inr (Inr [(''operation'', PStr ''create''), (''vm_id'', PStr ''100''),
                 (''compress'', PStr ''0'')])"
    by (simp only: handle_backup_command_vars_exact [OF v] k) (simp add: opt_str_def)
  have r: "parse_args_backup (?args\<lparr> ns_compress := Some ''none'' \<rparr>) = Inl UsageError"
    by (simp add: parse_args_backup_def compress_choices_def choice_ok_def)
  from a p h r show ?thesis by simp
qed

end
